theory Spec2Isabelle
  imports Main "HOL-Library.Word"
begin

unbundle bit_operations_syntax

section \<open>Byte slices, errors and outcomes\<close>

text \<open>
  The package \<^verbatim>\<open>pkg/crypto\<close> of Krypt is a thin layer over \<^verbatim>\<open>crypto/aes\<close>,
  \<^verbatim>\<open>crypto/cipher\<close>, \<^verbatim>\<open>crypto/sha256\<close>, \<^verbatim>\<open>math/rand\<close> and
  \<^verbatim>\<open>golang.org/x/crypto/pbkdf2\<close>. What its functions return is decided by these
  libraries, so they are modelled first, each as far as \<^verbatim>\<open>pkg/crypto\<close> calls it.

  A Go \<^verbatim>\<open>[]byte\<close> is a list of 8-bit words; the \<^verbatim>\<open>nil\<close> slice and the empty slice are
  both the empty list. A Go \<^verbatim>\<open>error\<close> value is an element of \<open>error\<close>; a library
  function returning \<^verbatim>\<open>(value, err)\<close> is a sum with the error on the left. A call either
  returns or panics.
\<close>

type_synonym byte = "8 word"
type_synonym bytes = "byte list"

datatype error =
    KeySizeError int      \<comment> \<open>\<^verbatim>\<open>aes.KeySizeError(k)\<close>: "crypto/aes: invalid key size k"\<close>
  | ErrBlockSize          \<comment> \<open>"cipher: NewGCM requires 128-bit block cipher"\<close>
  | ErrNoNonce            \<comment> \<open>\<^verbatim>\<open>ErrNoNonce\<close>: "ciphertext smaller than nonce"\<close>
  | ErrOpen               \<comment> \<open>\<^verbatim>\<open>errOpen\<close>: "cipher: message authentication failed"\<close>

datatype 'a outcome = Returns 'a | Panics string

text \<open>
  \<^verbatim>\<open>make([]byte, len)\<close> is \<^verbatim>\<open>runtime.makeslice\<close>: it panics when \<^verbatim>\<open>len\<close> is negative
  or larger than \<^verbatim>\<open>maxAlloc\<close>, which is \<open>2\<^sup>4\<^sup>8\<close> bytes on the 64-bit platforms
  (\<^verbatim>\<open>heapAddrBits = 48\<close>). How much memory the machine has is not modelled: an
  allocation within this limit succeeds.
\<close>

definition maxAlloc :: nat where
  "maxAlloc = 2 ^ 48"

text \<open>\<^verbatim>\<open>subtle.XORBytes\<close>: the result has the length of the shorter argument.\<close>

definition xorBytes :: "bytes \<Rightarrow> bytes \<Rightarrow> bytes" where
  "xorBytes x y = map2 (\<lambda>a b. a XOR b) x y"

text \<open>\<^verbatim>\<open>binary.BigEndian\<close>: reading and writing unsigned integers of any width.\<close>

definition be_uint :: "bytes \<Rightarrow> 'a::len word" where
  "be_uint bs = foldl (\<lambda>acc b. push_bit 8 acc OR ucast b) 0 bs"

definition be_bytes :: "nat \<Rightarrow> 'a::len word \<Rightarrow> bytes" where
  "be_bytes n w = map (\<lambda>i. ucast (drop_bit (8 * (n - 1 - i)) w)) [0..<n]"

section \<open>crypto/aes: the block cipher behind \<^verbatim>\<open>aes.NewCipher\<close>\<close>

text \<open>
  The cipher is AES as FIPS 197 defines it, which is what \<^verbatim>\<open>crypto/aes\<close> computes. The
  16-byte state is kept in input order: byte \<open>i\<close> is row \<open>i mod 4\<close> of column \<open>i div 4\<close>.
\<close>

definition sbox :: "byte list" where
  "sbox = [
     0x63, 0x7c, 0x77, 0x7b, 0xf2, 0x6b, 0x6f, 0xc5, 0x30, 0x01, 0x67, 0x2b, 0xfe, 0xd7, 0xab, 0x76,
     0xca, 0x82, 0xc9, 0x7d, 0xfa, 0x59, 0x47, 0xf0, 0xad, 0xd4, 0xa2, 0xaf, 0x9c, 0xa4, 0x72, 0xc0,
     0xb7, 0xfd, 0x93, 0x26, 0x36, 0x3f, 0xf7, 0xcc, 0x34, 0xa5, 0xe5, 0xf1, 0x71, 0xd8, 0x31, 0x15,
     0x04, 0xc7, 0x23, 0xc3, 0x18, 0x96, 0x05, 0x9a, 0x07, 0x12, 0x80, 0xe2, 0xeb, 0x27, 0xb2, 0x75,
     0x09, 0x83, 0x2c, 0x1a, 0x1b, 0x6e, 0x5a, 0xa0, 0x52, 0x3b, 0xd6, 0xb3, 0x29, 0xe3, 0x2f, 0x84,
     0x53, 0xd1, 0x00, 0xed, 0x20, 0xfc, 0xb1, 0x5b, 0x6a, 0xcb, 0xbe, 0x39, 0x4a, 0x4c, 0x58, 0xcf,
     0xd0, 0xef, 0xaa, 0xfb, 0x43, 0x4d, 0x33, 0x85, 0x45, 0xf9, 0x02, 0x7f, 0x50, 0x3c, 0x9f, 0xa8,
     0x51, 0xa3, 0x40, 0x8f, 0x92, 0x9d, 0x38, 0xf5, 0xbc, 0xb6, 0xda, 0x21, 0x10, 0xff, 0xf3, 0xd2,
     0xcd, 0x0c, 0x13, 0xec, 0x5f, 0x97, 0x44, 0x17, 0xc4, 0xa7, 0x7e, 0x3d, 0x64, 0x5d, 0x19, 0x73,
     0x60, 0x81, 0x4f, 0xdc, 0x22, 0x2a, 0x90, 0x88, 0x46, 0xee, 0xb8, 0x14, 0xde, 0x5e, 0x0b, 0xdb,
     0xe0, 0x32, 0x3a, 0x0a, 0x49, 0x06, 0x24, 0x5c, 0xc2, 0xd3, 0xac, 0x62, 0x91, 0x95, 0xe4, 0x79,
     0xe7, 0xc8, 0x37, 0x6d, 0x8d, 0xd5, 0x4e, 0xa9, 0x6c, 0x56, 0xf4, 0xea, 0x65, 0x7a, 0xae, 0x08,
     0xba, 0x78, 0x25, 0x2e, 0x1c, 0xa6, 0xb4, 0xc6, 0xe8, 0xdd, 0x74, 0x1f, 0x4b, 0xbd, 0x8b, 0x8a,
     0x70, 0x3e, 0xb5, 0x66, 0x48, 0x03, 0xf6, 0x0e, 0x61, 0x35, 0x57, 0xb9, 0x86, 0xc1, 0x1d, 0x9e,
     0xe1, 0xf8, 0x98, 0x11, 0x69, 0xd9, 0x8e, 0x94, 0x9b, 0x1e, 0x87, 0xe9, 0xce, 0x55, 0x28, 0xdf,
     0x8c, 0xa1, 0x89, 0x0d, 0xbf, 0xe6, 0x42, 0x68, 0x41, 0x99, 0x2d, 0x0f, 0xb0, 0x54, 0xbb, 0x16]"

definition subByte :: "byte \<Rightarrow> byte" where
  "subByte b = sbox ! unat b"

definition xtime :: "byte \<Rightarrow> byte" where
  "xtime b = (if bit b 7 then push_bit 1 b XOR 0x1b else push_bit 1 b)"

definition subBytes :: "bytes \<Rightarrow> bytes" where
  "subBytes s = map subByte s"

definition shiftRows :: "bytes \<Rightarrow> bytes" where
  "shiftRows s = map (\<lambda>i. s ! (i mod 4 + 4 * ((i div 4 + i mod 4) mod 4))) [0..<16]"

definition mixColumn :: "bytes \<Rightarrow> bytes" where
  "mixColumn a =
     (let a0 = a ! 0; a1 = a ! 1; a2 = a ! 2; a3 = a ! 3 in
      [xtime a0 XOR (xtime a1 XOR a1) XOR a2 XOR a3,
       a0 XOR xtime a1 XOR (xtime a2 XOR a2) XOR a3,
       a0 XOR a1 XOR xtime a2 XOR (xtime a3 XOR a3),
       (xtime a0 XOR a0) XOR a1 XOR a2 XOR xtime a3])"

definition mixColumns :: "bytes \<Rightarrow> bytes" where
  "mixColumns s = concat (map (\<lambda>c. mixColumn (take 4 (drop (4 * c) s))) [0..<4])"

definition addRoundKey :: "bytes \<Rightarrow> bytes \<Rightarrow> bytes" where
  "addRoundKey s rk = map (\<lambda>i. s ! i XOR rk ! i) [0..<16]"

definition rotWord :: "bytes \<Rightarrow> bytes" where
  "rotWord w = drop 1 w @ take 1 w"

fun rcon :: "nat \<Rightarrow> byte" where
  "rcon 0 = 1"
| "rcon (Suc n) = xtime (rcon n)"

text \<open>The key schedule: \<open>w\<close> holds the 4-byte words computed so far.\<close>

definition nextWord :: "nat \<Rightarrow> bytes list \<Rightarrow> bytes" where
  "nextWord nk w =
     (let i = length w;
          t = w ! (i - 1);
          t' = (if i mod nk = 0
                then xorBytes (map subByte (rotWord t)) [rcon (i div nk - 1), 0, 0, 0]
                else if nk > 6 \<and> i mod nk = 4 then map subByte t
                else t)
      in xorBytes (w ! (i - nk)) t')"

fun expandWords :: "nat \<Rightarrow> nat \<Rightarrow> bytes list \<Rightarrow> bytes list" where
  "expandWords nk 0 w = w"
| "expandWords nk (Suc n) w = expandWords nk n (w @ [nextWord nk w])"

definition expandKey :: "bytes \<Rightarrow> bytes list" where
  "expandKey key =
     (let nk = length key div 4;
          w0 = map (\<lambda>i. take 4 (drop (4 * i) key)) [0..<nk]
      in expandWords nk (4 * (nk + 7) - nk) w0)"

definition roundKey :: "bytes list \<Rightarrow> nat \<Rightarrow> bytes" where
  "roundKey w r = concat (take 4 (drop (4 * r) w))"

fun rounds :: "bytes list \<Rightarrow> nat \<Rightarrow> nat \<Rightarrow> bytes \<Rightarrow> bytes" where
  "rounds w r 0 s = s"
| "rounds w r (Suc n) s =
     rounds w (Suc r) n (addRoundKey (mixColumns (shiftRows (subBytes s))) (roundKey w r))"

definition encryptBlock :: "bytes list \<Rightarrow> bytes \<Rightarrow> bytes" where
  "encryptBlock w src =
     (let nr = length w div 4 - 1;
          s0 = addRoundKey src (roundKey w 0);
          s1 = rounds w 1 (nr - 1) s0
      in addRoundKey (shiftRows (subBytes s1)) (roundKey w nr))"

text \<open>
  \<^verbatim>\<open>cipher.Block\<close>, and \<^verbatim>\<open>aes.NewCipher\<close>: the key must be 16, 24 or 32 bytes long
  (AES-128, AES-192 or AES-256); any other length is \<^verbatim>\<open>KeySizeError\<close>.
\<close>

record cipher_Block =
  BlockSize :: nat
  Encrypt_block :: "bytes \<Rightarrow> bytes"

definition aes_BlockSize :: nat where
  "aes_BlockSize = 16"

definition aes_NewCipher :: "bytes \<Rightarrow> error + cipher_Block" where
  "aes_NewCipher key =
     (let k = length key in
      if k = 16 \<or> k = 24 \<or> k = 32
      then Inr \<lparr>BlockSize = aes_BlockSize, Encrypt_block = encryptBlock (expandKey key)\<rparr>
      else Inl (KeySizeError (int k)))"

section \<open>crypto/cipher: Galois/Counter Mode\<close>

text \<open>
  \<^verbatim>\<open>cipher.NewGCM\<close> wraps a 128-bit block cipher with the standard nonce size of 12
  bytes and the tag size of 16 bytes, and refuses a cipher of another block size. A
  field element is a 128-bit word read big-endian from its 16 bytes, so the first bit of
  the block is bit 127 of the word.
\<close>

record gcm =
  cipher :: cipher_Block
  nonceSize :: nat
  tagSize :: nat

definition gcmBlockSize :: nat where
  "gcmBlockSize = 16"

definition gcmTagSize :: nat where
  "gcmTagSize = 16"

definition gcmMinimumTagSize :: nat where
  "gcmMinimumTagSize = 12"

definition gcmStandardNonceSize :: nat where
  "gcmStandardNonceSize = 12"

definition cipher_NewGCM :: "cipher_Block \<Rightarrow> error + gcm" where
  "cipher_NewGCM b =
     (if BlockSize b \<noteq> gcmBlockSize then Inl ErrBlockSize
      else Inr \<lparr>cipher = b, nonceSize = gcmStandardNonceSize, tagSize = gcmTagSize\<rparr>)"

definition NonceSize :: "gcm \<Rightarrow> nat" where
  "NonceSize g = nonceSize g"

text \<open>
  Multiplication in GF(2^128) with the GCM polynomial, as NIST SP 800-38D specifies it
  (\<^verbatim>\<open>gcm.mul\<close> computes the same product four bits at a time from a table). The
  bits of \<open>x\<close> are read from the first (bit 127 of the word) to the last; \<open>v\<close> is
  multiplied by the indeterminate at every step.
\<close>

definition gcmR :: "128 word" where
  "gcmR = push_bit 120 0xE1"

fun gcmMulLoop :: "nat \<Rightarrow> 128 word \<Rightarrow> 128 word \<Rightarrow> 128 word \<Rightarrow> 128 word" where
  "gcmMulLoop 0 x z v = z"
| "gcmMulLoop (Suc n) x z v =
     gcmMulLoop n x
       (if bit x n then z XOR v else z)
       (if bit v 0 then drop_bit 1 v XOR gcmR else drop_bit 1 v)"

definition gcmMul :: "128 word \<Rightarrow> 128 word \<Rightarrow> 128 word" where
  "gcmMul x y = gcmMulLoop 128 x 0 y"

text \<open>
  \<^verbatim>\<open>gcmDouble\<close> is the product with the indeterminate, the step that the loop applies
  to \<open>v\<close>. \<open>gcmOne\<close> is the polynomial 1: its coefficient is the first bit of the
  first byte of a block.
\<close>

definition gcmDouble :: "128 word \<Rightarrow> 128 word" where
  "gcmDouble v = (if bit v 0 then drop_bit 1 v XOR gcmR else drop_bit 1 v)"

definition gcmOne :: "128 word" where
  "gcmOne = push_bit 127 1"

definition hashKey :: "gcm \<Rightarrow> 128 word" where
  "hashKey g = be_uint (Encrypt_block (cipher g) (replicate gcmBlockSize 0))"

definition padBlock :: "bytes \<Rightarrow> bytes" where
  "padBlock b = b @ replicate (gcmBlockSize - length b) 0"

text \<open>
  \<^verbatim>\<open>update\<close>: fold the data into \<open>y\<close>, 16 bytes at a time, the last block padded
  with zeros.
\<close>

fun gcmUpdate :: "128 word \<Rightarrow> 128 word \<Rightarrow> bytes \<Rightarrow> 128 word" where
  "gcmUpdate h y [] = y"
| "gcmUpdate h y (b # bs) =
     gcmUpdate h (gcmMul (y XOR be_uint (padBlock (take 16 (b # bs)))) h) (drop 15 bs)"

definition bitLen :: "bytes \<Rightarrow> 128 word" where
  "bitLen d = ucast ((word_of_nat (length d) :: 64 word) * 8)"

definition gcmAuth :: "gcm \<Rightarrow> bytes \<Rightarrow> bytes \<Rightarrow> bytes \<Rightarrow> bytes" where
  "gcmAuth g ciphertext additionalData tagMask =
     (let h = hashKey g;
          y0 = gcmUpdate h 0 additionalData;
          y1 = gcmUpdate h y0 ciphertext;
          y2 = y1 XOR push_bit 64 (bitLen additionalData) XOR bitLen ciphertext;
          y3 = gcmMul y2 h
      in xorBytes (be_bytes 16 y3) tagMask)"

definition gcmInc32 :: "bytes \<Rightarrow> bytes" where
  "gcmInc32 counterBlock =
     take (length counterBlock - 4) counterBlock @
     be_bytes 4 ((be_uint (drop (length counterBlock - 4) counterBlock) :: 32 word) + 1)"

definition deriveCounter :: "gcm \<Rightarrow> bytes \<Rightarrow> bytes" where
  "deriveCounter g nonce =
     (if length nonce = gcmStandardNonceSize then nonce @ [0, 0, 0, 1]
      else (let h = hashKey g;
                y0 = gcmUpdate h 0 nonce;
                y1 = y0 XOR bitLen nonce
            in be_bytes 16 (gcmMul y1 h)))"

text \<open>
  \<^verbatim>\<open>counterCrypt\<close>: every block of the input, the last one possibly short, is XORed
  with the encryption of the counter, which is then incremented.
\<close>

fun counterCrypt :: "gcm \<Rightarrow> bytes \<Rightarrow> bytes \<Rightarrow> bytes" where
  "counterCrypt g counter [] = []"
| "counterCrypt g counter (b # bs) =
     xorBytes (take 16 (b # bs)) (Encrypt_block (cipher g) counter) @
     counterCrypt g (gcmInc32 counter) (drop 15 bs)"

definition maxPlaintext :: "gcm \<Rightarrow> nat" where
  "maxPlaintext g = (2 ^ 32 - 2) * BlockSize (cipher g)"

text \<open>
  \<^verbatim>\<open>Seal(dst, nonce, plaintext, data)\<close> appends the ciphertext and the tag to \<open>dst\<close>.
  It panics on a nonce of the wrong length and on a plaintext of more than \<open>2^32 - 2\<close>
  blocks, the most that the 32-bit counter of GCM can number.
\<close>

definition gcm_Seal :: "gcm \<Rightarrow> bytes \<Rightarrow> bytes \<Rightarrow> bytes \<Rightarrow> bytes \<Rightarrow> bytes outcome" where
  "gcm_Seal g dst nonce plaintext data =
     (if length nonce \<noteq> nonceSize g
      then Panics ''crypto/cipher: incorrect nonce length given to GCM''
      else if length plaintext > maxPlaintext g
      then Panics ''crypto/cipher: message too large for GCM''
      else
        (let counter = deriveCounter g nonce;
             tagMask = Encrypt_block (cipher g) counter;
             out = counterCrypt g (gcmInc32 counter) plaintext;
             tag = gcmAuth g out data tagMask
         in Returns (dst @ out @ tag)))"

text \<open>
  \<^verbatim>\<open>Open(dst, nonce, ciphertext, data)\<close> returns \<^verbatim>\<open>(nil, errOpen)\<close> when the input is
  shorter than a tag or longer than a sealed message can be, and when its last
  \<open>tagSize\<close> bytes are not the tag of what precedes them (\<^verbatim>\<open>subtle.ConstantTimeCompare\<close>
  is equality of the two slices). Only then is the rest decrypted.
\<close>

definition gcm_Open :: "gcm \<Rightarrow> bytes \<Rightarrow> bytes \<Rightarrow> bytes \<Rightarrow> bytes \<Rightarrow> (error + bytes) outcome" where
  "gcm_Open g dst nonce ciphertext data =
     (if length nonce \<noteq> nonceSize g
      then Panics ''crypto/cipher: incorrect nonce length given to GCM''
      else if tagSize g < gcmMinimumTagSize
      then Panics ''crypto/cipher: incorrect GCM tag size''
      else if length ciphertext < tagSize g then Returns (Inl ErrOpen)
      else if length ciphertext > maxPlaintext g + tagSize g then Returns (Inl ErrOpen)
      else
        (let tag = drop (length ciphertext - tagSize g) ciphertext;
             ct = take (length ciphertext - tagSize g) ciphertext;
             counter = deriveCounter g nonce;
             tagMask = Encrypt_block (cipher g) counter;
             expectedTag = gcmAuth g ct data tagMask
         in if take (tagSize g) expectedTag \<noteq> tag then Returns (Inl ErrOpen)
            else Returns (Inr (dst @ counterCrypt g (gcmInc32 counter) ct))))"

section \<open>math/rand: the process-wide generator\<close>

text \<open>
  The package-level state that \<^verbatim>\<open>RandBytes\<close> touches: whether \<^verbatim>\<open>setSeed\<close> has run,
  the clock that \<^verbatim>\<open>time.Now().UnixNano()\<close> reads, the seed of the global source (1 until
  \<^verbatim>\<open>rand.Seed\<close> is called) and how many bytes \<^verbatim>\<open>rand.Read\<close> has handed out since. The
  generator itself is a field of the state: \<open>generator w s i\<close> is byte \<open>i\<close> of the stream
  that seed \<open>s\<close> produces.
\<close>

record world =
  seeded :: bool
  clock :: int
  generator :: "int \<Rightarrow> nat \<Rightarrow> byte"
  seed :: int
  consumed :: nat

definition rand_Seed :: "int \<Rightarrow> world \<Rightarrow> world" where
  "rand_Seed s w = w\<lparr>seed := s, consumed := 0\<rparr>"

definition rand_Read :: "nat \<Rightarrow> world \<Rightarrow> bytes \<times> world" where
  "rand_Read n w =
     (map (generator w (seed w)) [consumed w ..< consumed w + n],
      w\<lparr>consumed := consumed w + n\<rparr>)"

definition setSeed_Do :: "world \<Rightarrow> world" where
  "setSeed_Do w = (if seeded w then w else (rand_Seed (clock w) w)\<lparr>seeded := True\<rparr>)"

section \<open>pkg/crypto\<close>

text \<open>
  \<^verbatim>\<open>RandBytes(len)\<close>: \<^verbatim>\<open>len\<close> is a Go \<^verbatim>\<open>int\<close>, a signed 64-bit integer. After
  \<^verbatim>\<open>setSeed.Do\<close> the slice is made, which can panic, and filled by \<^verbatim>\<open>rand.Read\<close>.
\<close>

definition RandBytes :: "64 word \<Rightarrow> world \<Rightarrow> (bytes \<times> world) outcome" where
  "RandBytes len w =
     (let w1 = setSeed_Do w in
      if sint len < 0 \<or> int maxAlloc < sint len
      then Panics ''runtime error: makeslice: len out of range''
      else Returns (rand_Read (nat (sint len)) w1))"

text \<open>
  \<^verbatim>\<open>Encrypt(src, key)\<close> returns the pair \<^verbatim>\<open>(enc, err)\<close>; \<open>enc\<close> is \<^verbatim>\<open>nil\<close> on every
  error path. The nonce is both the destination that \<^verbatim>\<open>Seal\<close> appends to and the nonce
  that it uses. A panic of \<^verbatim>\<open>RandBytes\<close> or \<^verbatim>\<open>Seal\<close> is not recovered.
\<close>

definition Encrypt :: "bytes \<Rightarrow> bytes \<Rightarrow> world \<Rightarrow> ((bytes \<times> error option) \<times> world) outcome" where
  "Encrypt src key w =
     (case aes_NewCipher key of
        Inl err \<Rightarrow> Returns (([], Some err), w)
      | Inr block \<Rightarrow>
          (case cipher_NewGCM block of
             Inl err \<Rightarrow> Returns (([], Some err), w)
           | Inr aesgcm \<Rightarrow>
               (case RandBytes (word_of_nat (NonceSize aesgcm)) w of
                  Panics msg \<Rightarrow> Panics msg
                | Returns (nonce, w') \<Rightarrow>
                    (case gcm_Seal aesgcm nonce nonce src [] of
                       Panics msg \<Rightarrow> Panics msg
                     | Returns enc \<Rightarrow> Returns ((enc, None), w')))))"

text \<open>
  \<^verbatim>\<open>Decrypt(ct, key)\<close> returns the pair \<^verbatim>\<open>(clt, err)\<close>: the key is checked first, then
  the length of the input, and the input is cut at the nonce size.
\<close>

definition Decrypt :: "bytes \<Rightarrow> bytes \<Rightarrow> (bytes \<times> error option) outcome" where
  "Decrypt ct key =
     (case aes_NewCipher key of
        Inl err \<Rightarrow> Returns ([], Some err)
      | Inr block \<Rightarrow>
          (case cipher_NewGCM block of
             Inl err \<Rightarrow> Returns ([], Some err)
           | Inr aesgcm \<Rightarrow>
               (let nonceSize = NonceSize aesgcm in
                if length ct < nonceSize then Returns ([], Some ErrNoNonce)
                else
                  (let nonce = take nonceSize ct; ct' = drop nonceSize ct in
                   case gcm_Open aesgcm [] nonce ct' [] of
                     Panics msg \<Rightarrow> Panics msg
                   | Returns (Inl err) \<Rightarrow> Returns ([], Some err)
                   | Returns (Inr clt) \<Rightarrow> Returns (clt, None)))))"

section \<open>crypto/sha256\<close>

text \<open>
  SHA-256 as FIPS 180-4 defines it and \<^verbatim>\<open>crypto/sha256\<close> computes it. The chaining
  value is the eight words \<open>a\<close> to \<open>h\<close>.
\<close>

type_synonym sha_state =
  "32 word \<times> 32 word \<times> 32 word \<times> 32 word \<times> 32 word \<times> 32 word \<times> 32 word \<times> 32 word"

definition sha256_K :: "32 word list" where
  "sha256_K = [
     1116352408, 1899447441, 3049323471, 3921009573, 961987163, 1508970993, 2453635748, 2870763221,
     3624381080, 310598401, 607225278, 1426881987, 1925078388, 2162078206, 2614888103, 3248222580,
     3835390401, 4022224774, 264347078, 604807628, 770255983, 1249150122, 1555081692, 1996064986,
     2554220882, 2821834349, 2952996808, 3210313671, 3336571891, 3584528711, 113926993, 338241895,
     666307205, 773529912, 1294757372, 1396182291, 1695183700, 1986661051, 2177026350, 2456956037,
     2730485921, 2820302411, 3259730800, 3345764771, 3516065817, 3600352804, 4094571909, 275423344,
     430227734, 506948616, 659060556, 883997877, 958139571, 1322822218, 1537002063, 1747873779,
     1955562222, 2024104815, 2227730452, 2361852424, 2428436474, 2756734187, 3204031479, 3329325298]"

definition sha256_init :: sha_state where
  "sha256_init = (1779033703, 3144134277, 1013904242, 2773480762,
                  1359893119, 2600822924, 528734635, 1541459225)"

definition schedule_next :: "32 word list \<Rightarrow> 32 word" where
  "schedule_next w =
     (let i = length w;
          v1 = w ! (i - 2);
          t1 = word_rotr 17 v1 XOR word_rotr 19 v1 XOR drop_bit 10 v1;
          v2 = w ! (i - 15);
          t2 = word_rotr 7 v2 XOR word_rotr 18 v2 XOR drop_bit 3 v2
      in t1 + w ! (i - 7) + t2 + w ! (i - 16))"

fun schedule :: "nat \<Rightarrow> 32 word list \<Rightarrow> 32 word list" where
  "schedule 0 w = w"
| "schedule (Suc n) w = schedule n (w @ [schedule_next w])"

fun sha256_round :: "sha_state \<Rightarrow> 32 word \<times> 32 word \<Rightarrow> sha_state" where
  "sha256_round (a, b, c, d, e, f, g, h) (k, w) =
     (let t1 = h + (word_rotr 6 e XOR word_rotr 11 e XOR word_rotr 25 e)
                 + ((e AND f) XOR (NOT e AND g)) + k + w;
          t2 = (word_rotr 2 a XOR word_rotr 13 a XOR word_rotr 22 a)
                 + ((a AND b) XOR (a AND c) XOR (b AND c))
      in (t1 + t2, a, b, c, d + t1, e, f, g))"

fun sha256_add :: "sha_state \<Rightarrow> sha_state \<Rightarrow> sha_state" where
  "sha256_add (a, b, c, d, e, f, g, h) (a', b', c', d', e', f', g', h') =
     (a + a', b + b', c + c', d + d', e + e', f + f', g + g', h + h')"

text \<open>\<^verbatim>\<open>block\<close>: one 64-byte chunk is absorbed into the chaining value.\<close>

definition sha256_chunk :: "sha_state \<Rightarrow> bytes \<Rightarrow> sha_state" where
  "sha256_chunk st p =
     (let w0 = map (\<lambda>i. be_uint (take 4 (drop (4 * i) p))) [0..<16];
          w = schedule 48 w0
      in sha256_add st (foldl sha256_round st (zip sha256_K w)))"

fun sha256_block :: "sha_state \<Rightarrow> bytes \<Rightarrow> sha_state" where
  "sha256_block st [] = st"
| "sha256_block st (b # bs) = sha256_block (sha256_chunk st (take 64 (b # bs))) (drop 63 bs)"

text \<open>
  \<^verbatim>\<open>checkSum\<close>: a byte \<^verbatim>\<open>0x80\<close>, zeros up to 56 bytes modulo 64, and the length of the
  message in bits as a 64-bit big-endian integer.
\<close>

definition sha256_padding :: "nat \<Rightarrow> bytes" where
  "sha256_padding len =
     (let t = (if len mod 64 < 56 then 56 - len mod 64 else 64 + 56 - len mod 64)
      in 0x80 # replicate (t - 1) 0 @ be_bytes 8 (push_bit 3 (word_of_nat len :: 64 word)))"

fun sha256_digest :: "sha_state \<Rightarrow> bytes" where
  "sha256_digest (a, b, c, d, e, f, g, h) = concat (map (be_bytes 4) [a, b, c, d, e, f, g, h])"

definition sha256_Sum256 :: "bytes \<Rightarrow> bytes" where
  "sha256_Sum256 data =
     sha256_digest (sha256_block sha256_init (data @ sha256_padding (length data)))"

text \<open>
  \<^verbatim>\<open>hash.Hash\<close>: the output size, the block size and the digest of everything written
  since the last \<^verbatim>\<open>Reset\<close>. \<^verbatim>\<open>sha256.New\<close> is the one hash the package uses.
\<close>

record hash_Hash =
  hashSize :: nat
  hashBlockSize :: nat
  hashSum :: "bytes \<Rightarrow> bytes"

definition sha256_New :: hash_Hash where
  "sha256_New = \<lparr>hashSize = 32, hashBlockSize = 64, hashSum = sha256_Sum256\<rparr>"

section \<open>crypto/hmac\<close>

text \<open>
  The HMAC object of \<^verbatim>\<open>hmac.New\<close>: the two pads and the bytes written to the inner
  hash after \<open>ipad\<close>. \<^verbatim>\<open>Reset\<close>, \<^verbatim>\<open>Write\<close> and \<^verbatim>\<open>Sum\<close> are its methods.
\<close>

record hmac =
  hmacHash :: hash_Hash
  opad :: bytes
  ipad :: bytes
  inner :: bytes

definition hmac_New :: "hash_Hash \<Rightarrow> bytes \<Rightarrow> hmac" where
  "hmac_New h key =
     (let blocksize = hashBlockSize h;
          key' = (if length key > blocksize then hashSum h key else key);
          pad = take blocksize key' @ replicate (blocksize - length key') 0
      in \<lparr>hmacHash = h,
          opad = map (\<lambda>b. b XOR 0x5c) pad,
          ipad = map (\<lambda>b. b XOR 0x36) pad,
          inner = []\<rparr>)"

definition hmac_Size :: "hmac \<Rightarrow> nat" where
  "hmac_Size m = hashSize (hmacHash m)"

definition hmac_Reset :: "hmac \<Rightarrow> hmac" where
  "hmac_Reset m = m\<lparr>inner := []\<rparr>"

definition hmac_Write :: "bytes \<Rightarrow> hmac \<Rightarrow> hmac" where
  "hmac_Write p m = m\<lparr>inner := inner m @ p\<rparr>"

definition hmac_Sum :: "bytes \<Rightarrow> hmac \<Rightarrow> bytes" where
  "hmac_Sum b m =
     b @ hashSum (hmacHash m) (opad m @ hashSum (hmacHash m) (ipad m @ inner m))"

section \<open>golang.org/x/crypto/pbkdf2\<close>

text \<open>
  The inner loop of \<^verbatim>\<open>pbkdf2.Key\<close>, \<^verbatim>\<open>for n := 2; n <= iter; n++\<close>, with \<open>k\<close> passes
  left: \<open>U\<close> becomes the PRF of \<open>U\<close> and is XORed into \<open>T\<close>.
\<close>

fun pbkdf2_inner :: "nat \<Rightarrow> hmac \<Rightarrow> bytes \<Rightarrow> bytes \<Rightarrow> hmac \<times> bytes \<times> bytes" where
  "pbkdf2_inner 0 prf U T = (prf, U, T)"
| "pbkdf2_inner (Suc k) prf U T =
     (let prf1 = hmac_Write U (hmac_Reset prf);
          U' = hmac_Sum [] prf1
      in pbkdf2_inner k prf1 U' (xorBytes T U'))"

text \<open>
  The outer loop, \<^verbatim>\<open>for block := 1; block <= numBlocks; block++\<close>, with \<open>k\<close> blocks
  left: the PRF of the salt and the block number is appended to \<open>dk\<close>, and the inner
  loop works on these last \<open>hashLen\<close> bytes.
\<close>

fun pbkdf2_blocks :: "nat \<Rightarrow> nat \<Rightarrow> hmac \<Rightarrow> bytes \<Rightarrow> nat \<Rightarrow> bytes \<Rightarrow> bytes" where
  "pbkdf2_blocks 0 block prf salt iter dk = dk"
| "pbkdf2_blocks (Suc k) block prf salt iter dk =
     (let hashLen = hmac_Size prf;
          prf1 = hmac_Write (be_bytes 4 (word_of_nat block :: 32 word))
                   (hmac_Write salt (hmac_Reset prf));
          dk1 = hmac_Sum dk prf1;
          T = drop (length dk1 - hashLen) dk1;
          (prf2, U, T') = pbkdf2_inner (iter - 1) prf1 T T
      in pbkdf2_blocks k (Suc block) prf2 salt iter (take (length dk1 - hashLen) dk1 @ T'))"

text \<open>
  \<^verbatim>\<open>pbkdf2.Key\<close> can panic in three places before its loop: the division by
  \<^verbatim>\<open>hashLen\<close> and the two calls of \<^verbatim>\<open>make\<close>, for \<^verbatim>\<open>dk\<close> with capacity
  \<^verbatim>\<open>numBlocks*hashLen\<close> and for \<^verbatim>\<open>U\<close> with length \<^verbatim>\<open>hashLen\<close>.
\<close>

definition pbkdf2_Key :: "bytes \<Rightarrow> bytes \<Rightarrow> nat \<Rightarrow> nat \<Rightarrow> hash_Hash \<Rightarrow> bytes outcome" where
  "pbkdf2_Key password salt iter keyLen h =
     (let prf = hmac_New h password;
          hashLen = hmac_Size prf
      in if hashLen = 0 then Panics ''runtime error: integer divide by zero''
         else
           (let numBlocks = (keyLen + hashLen - 1) div hashLen
            in if maxAlloc < numBlocks * hashLen
               then Panics ''runtime error: makeslice: cap out of range''
               else if maxAlloc < hashLen
               then Panics ''runtime error: makeslice: len out of range''
               else Returns (take keyLen (pbkdf2_blocks numBlocks 1 prf salt iter []))))"

section \<open>pkg/crypto: hashing and key derivation\<close>

text \<open>\<^verbatim>\<open>Sha256(data)\<close>: the checksum as a slice.\<close>

definition Sha256 :: "bytes \<Rightarrow> bytes" where
  "Sha256 data = (let checksum = sha256_Sum256 data in checksum)"

text \<open>
  \<^verbatim>\<open>Pbkdf2(pw, salt)\<close>: the three parameters are locals of the function body. The
  function is run in a state of the process, like \<^verbatim>\<open>Encrypt\<close>: it names no
  package-level variable, so the state comes back as it was, with the key; a panic of
  \<^verbatim>\<open>pbkdf2.Key\<close> is not recovered.
\<close>

definition Pbkdf2 :: "bytes \<Rightarrow> bytes \<Rightarrow> world \<Rightarrow> (bytes \<times> world) outcome" where
  "Pbkdf2 pw salt w =
     (let iter = 4096;
          klen = 32;
          algo = sha256_New
      in case pbkdf2_Key pw salt iter klen algo of
           Panics msg \<Rightarrow> Panics msg
         | Returns key \<Rightarrow> Returns (key, w))"

section \<open>PBKDF2 as RFC 8018 states it\<close>

text \<open>
  The specification that \<^verbatim>\<open>Pbkdf2\<close> is compared with: HMAC (RFC 2104) over SHA-256 as
  the pseudorandom function, \<open>U\<^sub>1 = PRF(P, S || INT(1))\<close>, \<open>U\<^sub>j\<^sub>+\<^sub>1 = PRF(P, U\<^sub>j)\<close>, and the
  first block \<open>T\<^sub>1 = U\<^sub>1 XOR ... XOR U\<^sub>c\<close>. \<open>rfc_U P S j\<close> is \<open>U\<^sub>j\<^sub>+\<^sub>1\<close>.
\<close>

definition rfc_HMAC_SHA256 :: "bytes \<Rightarrow> bytes \<Rightarrow> bytes" where
  "rfc_HMAC_SHA256 K text =
     (let K' = (if length K > 64 then sha256_Sum256 K else K);
          K0 = K' @ replicate (64 - length K') 0
      in sha256_Sum256 (map (\<lambda>b. b XOR 0x5c) K0 @
           sha256_Sum256 (map (\<lambda>b. b XOR 0x36) K0 @ text)))"

fun rfc_U :: "bytes \<Rightarrow> bytes \<Rightarrow> nat \<Rightarrow> bytes" where
  "rfc_U P S 0 = rfc_HMAC_SHA256 P (S @ [0, 0, 0, 1])"
| "rfc_U P S (Suc j) = rfc_HMAC_SHA256 P (rfc_U P S j)"

definition rfc_T1 :: "bytes \<Rightarrow> bytes \<Rightarrow> nat \<Rightarrow> bytes" where
  "rfc_T1 P S c = foldl xorBytes (rfc_U P S 0) (map (rfc_U P S) [1..<c])"

section \<open>Objects named in the statements\<close>

text \<open>
  The AEAD that \<^verbatim>\<open>Encrypt\<close> and \<^verbatim>\<open>Decrypt\<close> build from a key of valid length, that is
  \<^verbatim>\<open>cipher.NewGCM(aes.NewCipher(key))\<close>.
\<close>

definition aes_gcm :: "bytes \<Rightarrow> gcm" where
  "aes_gcm key =
     \<lparr>cipher = \<lparr>BlockSize = aes_BlockSize, Encrypt_block = encryptBlock (expandKey key)\<rparr>,
      nonceSize = gcmStandardNonceSize, tagSize = gcmTagSize\<rparr>"

text \<open>A process that has not called \<^verbatim>\<open>RandBytes\<close> yet, with some generator.\<close>

definition world0 :: world where
  "world0 =
     \<lparr>seeded = False, clock = 1635724800000000000,
      generator = (\<lambda>s i. word_of_int s + word_of_nat i), seed = 1, consumed = 0\<rparr>"

section \<open>An invariant of the HMAC object\<close>

text \<open>
  \<^verbatim>\<open>Reset\<close> and \<^verbatim>\<open>Write\<close> change only what has been written: the hash and the two
  pads stay those that \<^verbatim>\<open>hmac.New\<close> computed from the key \<open>P\<close>.
\<close>

definition keyed :: "bytes \<Rightarrow> hmac \<Rightarrow> bool" where
  "keyed P m \<longleftrightarrow>
     hmacHash m = sha256_New \<and> opad m = opad (hmac_New sha256_New P) \<and>
     ipad m = ipad (hmac_New sha256_New P)"

section \<open>Example data\<close>

text \<open>
  Two keys of 32 bytes and one of 16 bytes, the nonce that \<open>world0\<close> hands out first, and
  two plaintexts of one block. \<open>envelope12\<close> is the nonce, one block of ciphertext and a
  tag: the ciphertext block is the solution of the linear equation over GF(2^128) that
  makes the tags under \<open>key1\<close> and \<open>key2\<close> equal, and the plaintexts are this block
  XORed with the two key streams. \<open>envelope16\<close> is the nonce and the tag of the empty
  plaintext under \<open>key16\<close>.
\<close>

definition key1 :: bytes where
  "key1 =
     [37, 116, 179, 30, 41, 234, 75, 29, 237, 203, 4, 187, 115, 130, 126, 215, 92, 242, 222,
      185, 92, 117, 214, 80, 114, 170, 164, 187, 234, 137, 46, 34]"

definition key2 :: bytes where
  "key2 =
     [20, 73, 39, 30, 40, 213, 92, 84, 236, 119, 82, 138, 232, 95, 210, 143, 132, 57, 93,
      119, 226, 189, 167, 1, 180, 190, 99, 155, 227, 14, 55, 167]"

definition key16 :: bytes where
  "key16 = [248, 135, 245, 200, 65, 18, 44, 176, 228, 238, 74, 66, 126, 39, 123, 213]"

definition nonce0 :: bytes where
  "nonce0 = [0, 1, 2, 3, 4, 5, 6, 7, 8, 9, 10, 11]"

definition world1 :: world where
  "world1 = world0\<lparr>seeded := True, seed := 1635724800000000000, consumed := 12\<rparr>"

definition plain1 :: bytes where
  "plain1 = [244, 24, 159, 246, 77, 159, 111, 204, 30, 188, 199, 154, 125, 124, 27, 22]"


definition envelope12 :: bytes where
  "envelope12 =
     [0, 1, 2, 3, 4, 5, 6, 7, 8, 9, 10, 11, 80, 178, 12, 14, 231, 218, 8, 238, 200, 220,
      116, 127, 42, 145, 216, 81, 136, 23, 63, 69, 40, 100, 26, 71, 226, 4, 168, 21, 251,
      74, 129, 114]"

definition envelope16 :: bytes where
  "envelope16 =
     [0, 1, 2, 3, 4, 5, 6, 7, 8, 9, 10, 11, 129, 68, 177, 71, 66, 209, 2, 120, 193, 14, 155,
      109, 249, 75, 15, 143]"

text \<open>The key schedules of the three keys.\<close>

definition schedule1 :: "bytes list" where
  "schedule1 =
     [[37, 116, 179, 30], [41, 234, 75, 29], [237, 203, 4, 187], [115, 130, 126, 215], [92,
      242, 222, 185], [92, 117, 214, 80], [114, 170, 164, 187], [234, 137, 46, 34], [131,
      69, 32, 153], [170, 175, 107, 132], [71, 100, 111, 63], [52, 230, 17, 232], [68, 124,
      92, 34], [24, 9, 138, 114], [106, 163, 46, 201], [128, 42, 0, 235], [100, 38, 201,
      84], [206, 137, 162, 208], [137, 237, 205, 239], [189, 11, 220, 7], [62, 87, 218,
      231], [38, 94, 80, 149], [76, 253, 126, 92], [204, 215, 126, 183], [110, 213, 96, 31],
      [160, 92, 194, 207], [41, 177, 15, 32], [148, 186, 211, 39], [28, 163, 188, 43], [58,
      253, 236, 190], [118, 0, 146, 226], [186, 215, 236, 85], [104, 27, 156, 235], [200,
      71, 94, 36], [225, 246, 81, 4], [117, 76, 130, 35], [129, 138, 175, 13], [187, 119,
      67, 179], [205, 119, 209, 81], [119, 160, 61, 4], [152, 60, 110, 30], [80, 123, 48,
      58], [177, 141, 97, 62], [196, 193, 227, 29], [157, 242, 190, 169], [38, 133, 253,
      26], [235, 242, 44, 75], [156, 82, 17, 79], [184, 190, 234, 192], [232, 197, 218,
      250], [89, 72, 187, 196], [157, 137, 88, 217], [195, 85, 212, 156], [229, 208, 41,
      134], [14, 34, 5, 205], [146, 112, 20, 130], [169, 68, 249, 143], [65, 129, 35, 117],
      [24, 201, 152, 177], [133, 64, 192, 104]]"


definition schedule16 :: "bytes list" where
  "schedule16 =
     [[248, 135, 245, 200], [65, 18, 44, 176], [228, 238, 74, 66], [126, 39, 123, 213], [53,
      166, 246, 59], [116, 180, 218, 139], [144, 90, 144, 201], [238, 125, 235, 28], [200,
      79, 106, 19], [188, 251, 176, 152], [44, 161, 32, 81], [194, 220, 203, 77], [74, 80,
      137, 54], [246, 171, 57, 174], [218, 10, 25, 255], [24, 214, 210, 178], [180, 229,
      190, 155], [66, 78, 135, 53], [152, 68, 158, 202], [128, 146, 76, 120], [235, 204, 2,
      86], [169, 130, 133, 99], [49, 198, 27, 169], [177, 84, 87, 209], [235, 151, 60, 158],
      [66, 21, 185, 253], [115, 211, 162, 84], [194, 135, 245, 133], [188, 113, 171, 187],
      [254, 100, 18, 70], [141, 183, 176, 18], [79, 48, 69, 151], [56, 31, 35, 63], [198,
      123, 49, 121], [75, 204, 129, 107], [4, 252, 196, 252], [147, 3, 147, 205], [85, 120,
      162, 180], [30, 180, 35, 223], [26, 72, 231, 35], [247, 151, 181, 111], [162, 239, 23,
      219], [188, 91, 52, 4], [166, 19, 211, 39]]"

section \<open>Key sizes and the two constructors\<close>

lemma aes_NewCipher_valid:
  "length key = 16 \<or> length key = 24 \<or> length key = 32 \<Longrightarrow>
   aes_NewCipher key = Inr (cipher (aes_gcm key))"
  by (simp add: aes_NewCipher_def aes_gcm_def Let_def)

lemma aes_NewCipher_invalid:
  "\<not> (length key = 16 \<or> length key = 24 \<or> length key = 32) \<Longrightarrow>
   aes_NewCipher key = Inl (KeySizeError (int (length key)))"
  by (simp add: aes_NewCipher_def Let_def)

lemma cipher_NewGCM_aes: "cipher_NewGCM (cipher (aes_gcm key)) = Inr (aes_gcm key)"
  by (simp add: cipher_NewGCM_def aes_gcm_def aes_BlockSize_def gcmBlockSize_def)

lemma NonceSize_aes_gcm: "NonceSize (aes_gcm key) = 12"
  by (simp add: NonceSize_def aes_gcm_def gcmStandardNonceSize_def)

lemma Decrypt_invalid_key:
  "\<not> (length key = 16 \<or> length key = 24 \<or> length key = 32) \<Longrightarrow>
   Decrypt ct key = Returns ([], Some (KeySizeError (int (length key))))"
  by (simp add: Decrypt_def aes_NewCipher_invalid)

lemma Encrypt_invalid_key:
  "\<not> (length key = 16 \<or> length key = 24 \<or> length key = 32) \<Longrightarrow>
   Encrypt src key w = Returns (([], Some (KeySizeError (int (length key)))), w)"
  by (simp add: Encrypt_def aes_NewCipher_invalid)

lemma Decrypt_valid_key:
  "length key = 16 \<or> length key = 24 \<or> length key = 32 \<Longrightarrow>
   Decrypt ct key =
     (if length ct < 12 then Returns ([], Some ErrNoNonce)
      else (case gcm_Open (aes_gcm key) [] (take 12 ct) (drop 12 ct) [] of
              Panics msg \<Rightarrow> Panics msg
            | Returns (Inl err) \<Rightarrow> Returns ([], Some err)
            | Returns (Inr clt) \<Rightarrow> Returns (clt, None)))"
  by (simp add: Decrypt_def aes_NewCipher_valid cipher_NewGCM_aes NonceSize_aes_gcm Let_def)

lemma RandBytes_in_range:
  "0 \<le> sint n \<Longrightarrow> sint n \<le> 2 ^ 48 \<Longrightarrow>
   RandBytes n w = Returns (rand_Read (nat (sint n)) (setSeed_Do w))"
  by (simp add: RandBytes_def maxAlloc_def Let_def)

lemma RandBytes_12: "RandBytes 12 w = Returns (rand_Read 12 (setSeed_Do w))"
  using RandBytes_in_range [of 12 w] by simp

lemma length_rand_Read: "length (fst (rand_Read n w)) = n"
  by (simp add: rand_Read_def)

lemma Encrypt_valid_key:
  "length key = 16 \<or> length key = 24 \<or> length key = 32 \<Longrightarrow>
   Encrypt src key w =
     (case gcm_Seal (aes_gcm key) (fst (rand_Read 12 (setSeed_Do w)))
             (fst (rand_Read 12 (setSeed_Do w))) src [] of
        Panics msg \<Rightarrow> Panics msg
      | Returns enc \<Rightarrow> Returns ((enc, None), snd (rand_Read 12 (setSeed_Do w))))"
  by (simp add: Encrypt_def aes_NewCipher_valid cipher_NewGCM_aes NonceSize_aes_gcm
      RandBytes_12 case_prod_beta)

lemma length_encryptBlock: "length (encryptBlock w src) = 16"
  by (simp add: encryptBlock_def addRoundKey_def Let_def)

lemma length_xorBytes: "length (xorBytes x y) = min (length x) (length y)"
  by (simp add: xorBytes_def)

lemma xorBytes_twice: "length x \<le> length m \<Longrightarrow> xorBytes (xorBytes x m) m = x"
proof (induction x arbitrary: m)
  case Nil
  then show ?case by (simp add: xorBytes_def)
next
  case (Cons a x)
  then obtain c m' where m: "m = c # m'" by (cases m) auto
  with Cons show ?case by (simp add: xorBytes_def xor.assoc)
qed

lemma counterCrypt_nonempty:
  "p \<noteq> [] \<Longrightarrow>
   counterCrypt g c p =
     xorBytes (take 16 p) (Encrypt_block (cipher g) c) @ counterCrypt g (gcmInc32 c) (drop 16 p)"
  by (cases p) simp_all

lemma length_counterCrypt:
  "\<forall>c. length (Encrypt_block (cipher g) c) = 16 \<Longrightarrow> length (counterCrypt g c p) = length p"
proof (induction g c p rule: counterCrypt.induct)
  case (1 g counter)
  then show ?case by simp
next
  case (2 g counter b bs)
  then show ?case by (simp add: length_xorBytes)
qed

lemma counterCrypt_twice:
  "\<forall>c. length (Encrypt_block (cipher g) c) = 16 \<Longrightarrow>
   counterCrypt g c (counterCrypt g c p) = p"
proof (induction g c p rule: counterCrypt.induct)
  case (1 g counter)
  then show ?case by simp
next
  case (2 g counter b bs)
  let ?p = "b # bs"
  let ?m = "Encrypt_block (cipher g) counter"
  let ?x = "xorBytes (take 16 ?p) ?m"
  let ?r = "counterCrypt g (gcmInc32 counter) (drop 16 ?p)"
  have lm: "length ?m = 16" using 2 by simp
  have lx: "length ?x = min (length ?p) 16" by (simp add: length_xorBytes lm)
  have lr: "length ?r = length ?p - 16" using 2 by (simp add: length_counterCrypt)
  have e: "counterCrypt g counter ?p = ?x @ ?r" by simp
  have ne: "?x @ ?r \<noteq> []" using lx by auto
  have tk: "take 16 (?x @ ?r) = ?x"
  proof (cases "length ?p \<ge> 16")
    case True
    then show ?thesis using lx by simp
  next
    case False
    then have "?r = []" using lr by simp
    then show ?thesis using lx by simp
  qed
  have dr: "drop 16 (?x @ ?r) = ?r"
  proof (cases "length ?p \<ge> 16")
    case True
    then show ?thesis using lx by simp
  next
    case False
    then have "?r = []" using lr by simp
    then show ?thesis using lx by simp
  qed
  have x2: "xorBytes ?x ?m = take 16 ?p" by (rule xorBytes_twice) (simp add: lm)
  have ih: "counterCrypt g (gcmInc32 counter) ?r = drop 16 ?p" using 2 by simp
  have "counterCrypt g counter (?x @ ?r) =
        xorBytes (take 16 (?x @ ?r)) ?m @ counterCrypt g (gcmInc32 counter) (drop 16 (?x @ ?r))"
    using ne by (rule counterCrypt_nonempty)
  also have "\<dots> = take 16 ?p @ drop 16 ?p" by (simp only: tk dr x2 ih)
  finally show ?case using e by simp
qed

lemma length_be_bytes: "length (be_bytes n w) = n"
  by (simp add: be_bytes_def)

lemma length_gcmAuth: "length m = 16 \<Longrightarrow> length (gcmAuth g c d m) = 16"
  by (simp add: gcmAuth_def Let_def length_xorBytes length_be_bytes)

lemma aes_gcm_block16: "\<forall>c. length (Encrypt_block (cipher (aes_gcm key)) c) = 16"
  by (simp add: aes_gcm_def length_encryptBlock)

lemma aes_gcm_sizes:
  "nonceSize (aes_gcm key) = 12" "tagSize (aes_gcm key) = 16"
  "maxPlaintext (aes_gcm key) = 68719476704"
  by (simp_all add: aes_gcm_def gcmStandardNonceSize_def gcmTagSize_def maxPlaintext_def
      aes_BlockSize_def)

lemma gcm_Seal_aes:
  "length nonce = 12 \<Longrightarrow> length p \<le> 68719476704 \<Longrightarrow>
   gcm_Seal (aes_gcm key) dst nonce p d =
     Returns (dst @ counterCrypt (aes_gcm key) (gcmInc32 (nonce @ [0, 0, 0, 1])) p @
       gcmAuth (aes_gcm key) (counterCrypt (aes_gcm key) (gcmInc32 (nonce @ [0, 0, 0, 1])) p) d
         (Encrypt_block (cipher (aes_gcm key)) (nonce @ [0, 0, 0, 1])))"
  by (simp add: gcm_Seal_def aes_gcm_sizes deriveCounter_def gcmStandardNonceSize_def Let_def)

lemma gcm_Open_aes:
  "length nonce = 12 \<Longrightarrow>
   gcm_Open (aes_gcm key) dst nonce c d =
     (if length c < 16 \<or> length c > 68719476720 then Returns (Inl ErrOpen)
      else if gcmAuth (aes_gcm key) (take (length c - 16) c) d
                (Encrypt_block (cipher (aes_gcm key)) (nonce @ [0, 0, 0, 1]))
              \<noteq> drop (length c - 16) c
      then Returns (Inl ErrOpen)
      else Returns (Inr (dst @ counterCrypt (aes_gcm key) (gcmInc32 (nonce @ [0, 0, 0, 1]))
                           (take (length c - 16) c))))"
  by (simp add: gcm_Open_def aes_gcm_sizes deriveCounter_def gcmStandardNonceSize_def Let_def
      gcmMinimumTagSize_def length_gcmAuth aes_gcm_block16)

lemma gcm_Open_Seal:
  assumes "length nonce = 12" "length p \<le> 68719476704"
    and "gcm_Seal (aes_gcm key) [] nonce p d = Returns c"
  shows "gcm_Open (aes_gcm key) [] nonce c d = Returns (Inr p)"
proof -
  let ?g = "aes_gcm key"
  let ?out = "counterCrypt ?g (gcmInc32 (nonce @ [0, 0, 0, 1])) p"
  let ?tag = "gcmAuth ?g ?out d (Encrypt_block (cipher ?g) (nonce @ [0, 0, 0, 1]))"
  have c: "c = ?out @ ?tag" using assms by (simp add: gcm_Seal_aes)
  have lo: "length ?out = length p" by (simp add: length_counterCrypt aes_gcm_block16)
  have lt: "length ?tag = 16" by (simp add: length_gcmAuth aes_gcm_block16)
  have "counterCrypt ?g (gcmInc32 (nonce @ [0, 0, 0, 1])) ?out = p"
    by (simp add: counterCrypt_twice aes_gcm_block16)
  then show ?thesis using assms(1,2) lo lt
    by (simp add: gcm_Open_aes c)
qed


section \<open>SHA-256, HMAC and PBKDF2\<close>

lemma length_sha256_digest: "length (sha256_digest st) = 32"
  by (cases st rule: sha256_digest.cases) (simp add: length_be_bytes)

lemma length_sha256_Sum256: "length (sha256_Sum256 d) = 32"
  by (simp add: sha256_Sum256_def length_sha256_digest)

lemma sha256_New_fields:
  "hashSize sha256_New = 32" "hashBlockSize sha256_New = 64" "hashSum sha256_New = sha256_Sum256"
  by (simp_all add: sha256_New_def)

lemma hmac_New_sha256:
  "hmac_New sha256_New P =
     \<lparr>hmacHash = sha256_New,
      opad = map (\<lambda>b. b XOR 0x5c)
        ((if length P > 64 then sha256_Sum256 P else P) @
         replicate (64 - length (if length P > 64 then sha256_Sum256 P else P)) 0),
      ipad = map (\<lambda>b. b XOR 0x36)
        ((if length P > 64 then sha256_Sum256 P else P) @
         replicate (64 - length (if length P > 64 then sha256_Sum256 P else P)) 0),
      inner = []\<rparr>"
  by (simp add: hmac_New_def sha256_New_fields Let_def length_sha256_Sum256)

lemma keyed_New: "keyed P (hmac_New sha256_New P)"
  by (simp add: keyed_def hmac_New_sha256)

lemma keyed_Write_Reset: "keyed P m \<Longrightarrow> keyed P (hmac_Write x (hmac_Reset m))"
  by (simp add: keyed_def hmac_Write_def hmac_Reset_def)

lemma keyed_Write_Write_Reset:
  "keyed P m \<Longrightarrow> keyed P (hmac_Write y (hmac_Write x (hmac_Reset m)))"
  by (simp add: keyed_def hmac_Write_def hmac_Reset_def)

lemma hmac_Sum_keyed:
  "keyed P m \<Longrightarrow> hmac_Sum b (hmac_Write x (hmac_Reset m)) = b @ rfc_HMAC_SHA256 P x"
  by (simp add: keyed_def hmac_Sum_def hmac_Write_def hmac_Reset_def hmac_New_sha256
      rfc_HMAC_SHA256_def sha256_New_fields Let_def)

lemma hmac_Sum_keyed2:
  "keyed P m \<Longrightarrow>
   hmac_Sum b (hmac_Write y (hmac_Write x (hmac_Reset m))) = b @ rfc_HMAC_SHA256 P (x @ y)"
  by (simp add: keyed_def hmac_Sum_def hmac_Write_def hmac_Reset_def hmac_New_sha256
      rfc_HMAC_SHA256_def sha256_New_fields Let_def)

lemma length_rfc_HMAC: "length (rfc_HMAC_SHA256 K x) = 32"
  by (simp add: rfc_HMAC_SHA256_def Let_def length_sha256_Sum256)

lemma length_rfc_U: "length (rfc_U P S j) = 32"
  by (cases j) (simp_all add: length_rfc_HMAC)

lemma pbkdf2_inner_rfc:
  "keyed P m \<Longrightarrow>
   snd (pbkdf2_inner k m (rfc_U P S j) T) =
     (rfc_U P S (j + k), foldl xorBytes T (map (rfc_U P S) [Suc j..<Suc (j + k)]))"
proof (induction k arbitrary: m j T)
  case 0
  then show ?case by simp
next
  case (Suc k)
  let ?m1 = "hmac_Write (rfc_U P S j) (hmac_Reset m)"
  have k1: "keyed P ?m1" using Suc.prems by (rule keyed_Write_Reset)
  have u: "hmac_Sum [] ?m1 = rfc_U P S (Suc j)"
    using Suc.prems by (simp add: hmac_Sum_keyed)
  have "snd (pbkdf2_inner (Suc k) m (rfc_U P S j) T) =
        snd (pbkdf2_inner k ?m1 (rfc_U P S (Suc j)) (xorBytes T (rfc_U P S (Suc j))))"
    by (simp add: Let_def u del: rfc_U.simps)
  also have "\<dots> = (rfc_U P S (Suc j + k),
      foldl xorBytes (xorBytes T (rfc_U P S (Suc j))) (map (rfc_U P S) [Suc (Suc j)..<Suc (Suc j + k)]))"
    using k1 by (rule Suc.IH)
  also have "\<dots> = (rfc_U P S (j + Suc k),
      foldl xorBytes T (map (rfc_U P S) [Suc j..<Suc (j + Suc k)]))"
  proof -
    have "[Suc j..<Suc (j + Suc k)] = Suc j # [Suc (Suc j)..<Suc (Suc j + k)]"
      by (simp add: upt_conv_Cons)
    then show ?thesis by (simp del: rfc_U.simps upt_Suc)
  qed
  finally show ?case .
qed

lemma length_foldl_xorBytes:
  "length T = 32 \<Longrightarrow> \<forall>u \<in> set us. length u = 32 \<Longrightarrow> length (foldl xorBytes T us) = 32"
  by (induction us arbitrary: T) (simp_all add: length_xorBytes)

lemma length_rfc_T1: "length (rfc_T1 P S c) = 32"
  by (simp add: rfc_T1_def length_foldl_xorBytes length_rfc_U del: rfc_U.simps)

lemma pbkdf2_Key_sha256_one_block:
  "0 < c \<Longrightarrow> pbkdf2_Key P S c 32 sha256_New = Returns (rfc_T1 P S c)"
proof -
  assume c: "0 < c"
  let ?m0 = "hmac_New sha256_New P"
  let ?m1 = "hmac_Write (be_bytes 4 (1 :: 32 word)) (hmac_Write S (hmac_Reset ?m0))"
  have size: "hmac_Size ?m0 = 32" by (simp add: hmac_Size_def hmac_New_sha256 sha256_New_fields)
  have int1: "be_bytes 4 (1 :: 32 word) = [0, 0, 0, 1]"
    by (simp add: be_bytes_def upt_rec)
  have k1: "keyed P ?m1" by (rule keyed_Write_Write_Reset) (rule keyed_New)
  have dk1: "hmac_Sum [] ?m1 = rfc_U P S 0"
    using keyed_New [of P] by (simp add: hmac_Sum_keyed2 int1)
  have inner: "snd (pbkdf2_inner (c - 1) ?m1 (rfc_U P S 0) (rfc_U P S 0)) =
      (rfc_U P S (c - 1), rfc_T1 P S c)"
    using c pbkdf2_inner_rfc [OF k1, of "c - 1" S 0 "rfc_U P S 0"]
    by (simp add: rfc_T1_def del: rfc_U.simps)
  have "pbkdf2_blocks 1 1 ?m0 S c [] = rfc_T1 P S c"
    using inner dk1
    by (simp add: Let_def size length_rfc_U case_prod_beta del: rfc_U.simps)
  then show ?thesis
    by (simp add: pbkdf2_Key_def Let_def size length_rfc_T1 maxAlloc_def)
qed

section \<open>What \<^verbatim>\<open>Encrypt\<close> returns\<close>

lemma gcm_Seal_dst:
  "gcm_Seal g dst nonce p d =
     (case gcm_Seal g [] nonce p d of
        Panics msg \<Rightarrow> Panics msg
      | Returns body \<Rightarrow> Returns (dst @ body))"
  by (simp add: gcm_Seal_def Let_def)

lemma Encrypt_Returns_valid:
  assumes "Encrypt src key w = Returns ((enc, None), w')"
  shows "length key = 16 \<or> length key = 24 \<or> length key = 32"
proof (rule ccontr)
  assume "\<not> (length key = 16 \<or> length key = 24 \<or> length key = 32)"
  then have "Encrypt src key w = Returns (([], Some (KeySizeError (int (length key)))), w)"
    by (rule Encrypt_invalid_key)
  with assms show False by simp
qed

lemma Encrypt_Returns_layout:
  assumes "Encrypt src key w = Returns ((enc, None), w')"
  shows "\<exists>nonce body. RandBytes 12 w = Returns (nonce, w') \<and> length nonce = 12 \<and>
           gcm_Seal (aes_gcm key) [] nonce src [] = Returns body \<and> enc = nonce @ body"
proof -
  let ?r = "rand_Read 12 (setSeed_Do w)"
  have v: "length key = 16 \<or> length key = 24 \<or> length key = 32"
    using assms by (rule Encrypt_Returns_valid)
  have rb: "RandBytes 12 w = Returns (fst ?r, snd ?r)"
    by (simp add: RandBytes_12)
  have ln: "length (fst ?r) = 12" by (rule length_rand_Read)
  from assms v obtain body where
    b: "gcm_Seal (aes_gcm key) [] (fst ?r) src [] = Returns body"
    and e: "enc = fst ?r @ body" and w': "w' = snd ?r"
    by (auto simp add: Encrypt_valid_key gcm_Seal_dst [of _ "fst ?r"] split: outcome.splits)
  show ?thesis using rb ln b e w' by blast
qed

lemma Encrypt_then_Decrypt:
  assumes "length key = 16 \<or> length key = 24 \<or> length key = 32"
    and "length p \<le> 68719476704"
  shows "\<exists>enc w'. Encrypt p key w = Returns ((enc, None), w') \<and>
           Decrypt enc key = Returns (p, None)"
proof -
  let ?n = "fst (rand_Read 12 (setSeed_Do w))"
  have ln: "length ?n = 12" by (rule length_rand_Read)
  obtain body where b: "gcm_Seal (aes_gcm key) [] ?n p [] = Returns body"
    using ln assms(2) by (simp add: gcm_Seal_aes)
  have enc: "Encrypt p key w = Returns ((?n @ body, None), snd (rand_Read 12 (setSeed_Do w)))"
    using assms(1) b by (simp add: Encrypt_valid_key gcm_Seal_dst [of _ ?n])
  have "gcm_Open (aes_gcm key) [] ?n body [] = Returns (Inr p)"
    using ln assms(2) b by (rule gcm_Open_Seal)
  then have "Decrypt (?n @ body) key = Returns (p, None)"
    using assms(1) ln by (simp add: Decrypt_valid_key)
  with enc show ?thesis by blast
qed





lemma Decrypt_valid_no_key_error:
  assumes "length key = 16 \<or> length key = 24 \<or> length key = 32"
  shows "Decrypt ct key \<noteq> Returns (clt, Some (KeySizeError k))"
proof (cases "length ct < 12")
  case True
  then show ?thesis using assms by (simp add: Decrypt_valid_key)
next
  case False
  then have "length (take 12 ct) = 12" by simp
  then show ?thesis using assms False by (simp add: Decrypt_valid_key gcm_Open_aes)
qed

lemma Encrypt_valid_no_key_error:
  assumes "length key = 16 \<or> length key = 24 \<or> length key = 32"
  shows "Encrypt src key w \<noteq> Returns ((enc, Some (KeySizeError k)), w')"
  using assms by (simp add: Encrypt_valid_key split: outcome.splits)

section \<open>Evaluating AES and GCM on concrete data\<close>

text \<open>
  The facts of this section compute the cipher on the example data by rewriting. The
  S-box becomes a table of rewrite rules and each round step an equation on a state of 16
  bytes, so that a block costs a few thousand rewrites.
\<close>

lemma subByte_table:
  "subByte 0 = 99" "subByte 1 = 124" "subByte 2 = 119" "subByte 3 = 123" "subByte 4 = 242" "subByte 5 = 107" "subByte 6 = 111" "subByte 7 = 197"
  "subByte 8 = 48" "subByte 9 = 1" "subByte 10 = 103" "subByte 11 = 43" "subByte 12 = 254" "subByte 13 = 215" "subByte 14 = 171" "subByte 15 = 118"
  "subByte 16 = 202" "subByte 17 = 130" "subByte 18 = 201" "subByte 19 = 125" "subByte 20 = 250" "subByte 21 = 89" "subByte 22 = 71" "subByte 23 = 240"
  "subByte 24 = 173" "subByte 25 = 212" "subByte 26 = 162" "subByte 27 = 175" "subByte 28 = 156" "subByte 29 = 164" "subByte 30 = 114" "subByte 31 = 192"
  "subByte 32 = 183" "subByte 33 = 253" "subByte 34 = 147" "subByte 35 = 38" "subByte 36 = 54" "subByte 37 = 63" "subByte 38 = 247" "subByte 39 = 204"
  "subByte 40 = 52" "subByte 41 = 165" "subByte 42 = 229" "subByte 43 = 241" "subByte 44 = 113" "subByte 45 = 216" "subByte 46 = 49" "subByte 47 = 21"
  "subByte 48 = 4" "subByte 49 = 199" "subByte 50 = 35" "subByte 51 = 195" "subByte 52 = 24" "subByte 53 = 150" "subByte 54 = 5" "subByte 55 = 154"
  "subByte 56 = 7" "subByte 57 = 18" "subByte 58 = 128" "subByte 59 = 226" "subByte 60 = 235" "subByte 61 = 39" "subByte 62 = 178" "subByte 63 = 117"
  "subByte 64 = 9" "subByte 65 = 131" "subByte 66 = 44" "subByte 67 = 26" "subByte 68 = 27" "subByte 69 = 110" "subByte 70 = 90" "subByte 71 = 160"
  "subByte 72 = 82" "subByte 73 = 59" "subByte 74 = 214" "subByte 75 = 179" "subByte 76 = 41" "subByte 77 = 227" "subByte 78 = 47" "subByte 79 = 132"
  "subByte 80 = 83" "subByte 81 = 209" "subByte 82 = 0" "subByte 83 = 237" "subByte 84 = 32" "subByte 85 = 252" "subByte 86 = 177" "subByte 87 = 91"
  "subByte 88 = 106" "subByte 89 = 203" "subByte 90 = 190" "subByte 91 = 57" "subByte 92 = 74" "subByte 93 = 76" "subByte 94 = 88" "subByte 95 = 207"
  "subByte 96 = 208" "subByte 97 = 239" "subByte 98 = 170" "subByte 99 = 251" "subByte 100 = 67" "subByte 101 = 77" "subByte 102 = 51" "subByte 103 = 133"
  "subByte 104 = 69" "subByte 105 = 249" "subByte 106 = 2" "subByte 107 = 127" "subByte 108 = 80" "subByte 109 = 60" "subByte 110 = 159" "subByte 111 = 168"
  "subByte 112 = 81" "subByte 113 = 163" "subByte 114 = 64" "subByte 115 = 143" "subByte 116 = 146" "subByte 117 = 157" "subByte 118 = 56" "subByte 119 = 245"
  "subByte 120 = 188" "subByte 121 = 182" "subByte 122 = 218" "subByte 123 = 33" "subByte 124 = 16" "subByte 125 = 255" "subByte 126 = 243" "subByte 127 = 210"
  "subByte 128 = 205" "subByte 129 = 12" "subByte 130 = 19" "subByte 131 = 236" "subByte 132 = 95" "subByte 133 = 151" "subByte 134 = 68" "subByte 135 = 23"
  "subByte 136 = 196" "subByte 137 = 167" "subByte 138 = 126" "subByte 139 = 61" "subByte 140 = 100" "subByte 141 = 93" "subByte 142 = 25" "subByte 143 = 115"
  "subByte 144 = 96" "subByte 145 = 129" "subByte 146 = 79" "subByte 147 = 220" "subByte 148 = 34" "subByte 149 = 42" "subByte 150 = 144" "subByte 151 = 136"
  "subByte 152 = 70" "subByte 153 = 238" "subByte 154 = 184" "subByte 155 = 20" "subByte 156 = 222" "subByte 157 = 94" "subByte 158 = 11" "subByte 159 = 219"
  "subByte 160 = 224" "subByte 161 = 50" "subByte 162 = 58" "subByte 163 = 10" "subByte 164 = 73" "subByte 165 = 6" "subByte 166 = 36" "subByte 167 = 92"
  "subByte 168 = 194" "subByte 169 = 211" "subByte 170 = 172" "subByte 171 = 98" "subByte 172 = 145" "subByte 173 = 149" "subByte 174 = 228" "subByte 175 = 121"
  "subByte 176 = 231" "subByte 177 = 200" "subByte 178 = 55" "subByte 179 = 109" "subByte 180 = 141" "subByte 181 = 213" "subByte 182 = 78" "subByte 183 = 169"
  "subByte 184 = 108" "subByte 185 = 86" "subByte 186 = 244" "subByte 187 = 234" "subByte 188 = 101" "subByte 189 = 122" "subByte 190 = 174" "subByte 191 = 8"
  "subByte 192 = 186" "subByte 193 = 120" "subByte 194 = 37" "subByte 195 = 46" "subByte 196 = 28" "subByte 197 = 166" "subByte 198 = 180" "subByte 199 = 198"
  "subByte 200 = 232" "subByte 201 = 221" "subByte 202 = 116" "subByte 203 = 31" "subByte 204 = 75" "subByte 205 = 189" "subByte 206 = 139" "subByte 207 = 138"
  "subByte 208 = 112" "subByte 209 = 62" "subByte 210 = 181" "subByte 211 = 102" "subByte 212 = 72" "subByte 213 = 3" "subByte 214 = 246" "subByte 215 = 14"
  "subByte 216 = 97" "subByte 217 = 53" "subByte 218 = 87" "subByte 219 = 185" "subByte 220 = 134" "subByte 221 = 193" "subByte 222 = 29" "subByte 223 = 158"
  "subByte 224 = 225" "subByte 225 = 248" "subByte 226 = 152" "subByte 227 = 17" "subByte 228 = 105" "subByte 229 = 217" "subByte 230 = 142" "subByte 231 = 148"
  "subByte 232 = 155" "subByte 233 = 30" "subByte 234 = 135" "subByte 235 = 233" "subByte 236 = 206" "subByte 237 = 85" "subByte 238 = 40" "subByte 239 = 223"
  "subByte 240 = 140" "subByte 241 = 161" "subByte 242 = 137" "subByte 243 = 13" "subByte 244 = 191" "subByte 245 = 230" "subByte 246 = 66" "subByte 247 = 104"
  "subByte 248 = 65" "subByte 249 = 153" "subByte 250 = 45" "subByte 251 = 15" "subByte 252 = 176" "subByte 253 = 84" "subByte 254 = 187" "subByte 255 = 22"
  by (simp_all add: subByte_def sbox_def)

lemma xtime_eval:
  "xtime b = (if bit b 7 then push_bit 1 (take_bit 7 b) XOR 0x1b else push_bit 1 b)"
proof -
  have "push_bit 1 (take_bit 7 b) = take_bit 8 (push_bit 1 b)"
    by (simp add: push_bit_take_bit)
  then have "push_bit 1 (take_bit 7 b) = push_bit 1 b"
    by (simp add: take_bit_word_eq_self)
  then show ?thesis by (simp add: xtime_def)
qed

lemma shiftRows_eval:
  "shiftRows [s0, s1, s2, s3, s4, s5, s6, s7, s8, s9, s10, s11, s12, s13, s14, s15] =
     [s0, s5, s10, s15, s4, s9, s14, s3, s8, s13, s2, s7, s12, s1, s6, s11]"
  by (simp add: shiftRows_def upt_rec)

lemma addRoundKey_eval:
  "addRoundKey [s0, s1, s2, s3, s4, s5, s6, s7, s8, s9, s10, s11, s12, s13, s14, s15]
     [k0, k1, k2, k3, k4, k5, k6, k7, k8, k9, k10, k11, k12, k13, k14, k15] =
     [s0 XOR k0, s1 XOR k1, s2 XOR k2, s3 XOR k3, s4 XOR k4, s5 XOR k5, s6 XOR k6, s7 XOR k7, s8 XOR k8, s9 XOR k9, s10 XOR k10, s11 XOR k11, s12 XOR k12, s13 XOR k13, s14 XOR k14, s15 XOR k15]"
  by (simp add: addRoundKey_def upt_rec)

lemma mixColumns_eval:
  "mixColumns [s0, s1, s2, s3, s4, s5, s6, s7, s8, s9, s10, s11, s12, s13, s14, s15] =
     [xtime s0 XOR (xtime s1 XOR s1) XOR s2 XOR s3, s0 XOR xtime s1 XOR (xtime s2 XOR s2)
      XOR s3, s0 XOR s1 XOR xtime s2 XOR (xtime s3 XOR s3), (xtime s0 XOR s0) XOR s1 XOR s2
      XOR xtime s3, xtime s4 XOR (xtime s5 XOR s5) XOR s6 XOR s7, s4 XOR xtime s5 XOR (xtime
      s6 XOR s6) XOR s7, s4 XOR s5 XOR xtime s6 XOR (xtime s7 XOR s7), (xtime s4 XOR s4) XOR
      s5 XOR s6 XOR xtime s7, xtime s8 XOR (xtime s9 XOR s9) XOR s10 XOR s11, s8 XOR xtime
      s9 XOR (xtime s10 XOR s10) XOR s11, s8 XOR s9 XOR xtime s10 XOR (xtime s11 XOR s11),
      (xtime s8 XOR s8) XOR s9 XOR s10 XOR xtime s11, xtime s12 XOR (xtime s13 XOR s13) XOR
      s14 XOR s15, s12 XOR xtime s13 XOR (xtime s14 XOR s14) XOR s15, s12 XOR s13 XOR xtime
      s14 XOR (xtime s15 XOR s15), (xtime s12 XOR s12) XOR s13 XOR s14 XOR xtime s15]"
  by (simp add: mixColumns_def mixColumn_def upt_rec Let_def)

lemma rounds_numeral:
  "rounds w r (numeral k) s =
     rounds w (Suc r) (pred_numeral k)
       (addRoundKey (mixColumns (shiftRows (subBytes s))) (roundKey w r))"
  by (simp add: numeral_eq_Suc)

lemma expandWords_numeral:
  "expandWords nk (numeral k) w = expandWords nk (pred_numeral k) (w @ [nextWord nk w])"
  by (simp add: numeral_eq_Suc)

lemma rcon_numeral: "rcon (numeral k) = xtime (rcon (pred_numeral k))"
  by (simp add: numeral_eq_Suc)

lemmas aes_block_eval =
  rounds_numeral encryptBlock_def roundKey_def addRoundKey_eval mixColumns_eval shiftRows_eval
  subBytes_def subByte_table xtime_eval Let_def

lemmas aes_key_eval =
  expandWords_numeral rcon_numeral expandKey_def nextWord_def subByte_table xtime_eval
  rotWord_def xorBytes_def Let_def upt_rec

text \<open>One step of the multiplication on numerals, halving \<open>v\<close> as a natural number.\<close>

lemma halve_word128:
  assumes "n < 340282366920938463463374607431768211456"
  shows "drop_bit 1 (word_of_nat n :: 128 word) = word_of_nat (n div 2)"
proof -
  have "unat (word_of_nat n :: 128 word) = n"
    using assms by (simp add: unat_of_nat)
  then have "unat (drop_bit 1 (word_of_nat n :: 128 word)) = n div 2"
    by (simp add: unat_drop_bit_eq drop_bit_Suc unat_div)
  then show ?thesis
    by (metis of_nat_unat ucast_id)
qed

lemma gcmR_eval: "gcmR = 0xE1000000000000000000000000000000"
  by (simp add: gcmR_def)

lemma gcmMulLoop_numeral:
  assumes "numeral kv < (340282366920938463463374607431768211456 :: nat)"
  shows "gcmMulLoop (numeral k) x z (numeral kv) =
     gcmMulLoop (pred_numeral k) x
       (if bit x (pred_numeral k) then z XOR numeral kv else z)
       (if bit (numeral kv :: 128 word) 0
        then word_of_nat (numeral kv div 2) XOR 0xE1000000000000000000000000000000
        else word_of_nat (numeral kv div 2))"
proof -
  have h: "drop_bit 1 (numeral kv :: 128 word) = word_of_nat (numeral kv div 2)"
    using halve_word128 [OF assms] by (simp only: of_nat_numeral)
  have "gcmMulLoop (Suc (pred_numeral k)) x z (numeral kv) =
     gcmMulLoop (pred_numeral k) x
       (if bit x (pred_numeral k) then z XOR numeral kv else z)
       (if bit (numeral kv :: 128 word) 0
        then drop_bit 1 (numeral kv :: 128 word) XOR gcmR
        else drop_bit 1 (numeral kv :: 128 word))"
    by (rule gcmMulLoop.simps)
  then show ?thesis
    by (simp only: h gcmR_eval numeral_eq_Suc)
qed

lemma gcmMulLoop_last: "gcmMulLoop (Suc 0) x z v = (if bit x 0 then z XOR v else z)"
  by simp

lemma gcmMulLoop_zero: "gcmMulLoop n 0 z v = z"
  by (induction n arbitrary: z v) simp_all

lemma gcmMul_zero: "gcmMul 0 h = 0"
  by (simp add: gcmMul_def gcmMulLoop_zero)

text \<open>The key schedules.\<close>

lemma expandKey_key1: "expandKey key1 = schedule1"
  by (simp add: key1_def schedule1_def aes_key_eval)


lemma expandKey_key16: "expandKey key16 = schedule16"
  by (simp add: key16_def schedule16_def aes_key_eval)

text \<open>
  The blocks that sealing and opening the example envelope encrypt: the zero block (the
  hash key), the first counter block (the tag mask) and the second (the key stream).
\<close>

lemma block1_zero:
  "encryptBlock schedule1
     [0, 0, 0, 0, 0, 0, 0, 0, 0, 0, 0, 0, 0, 0, 0, 0] =
     [87, 9, 93, 80, 230, 110, 40, 11, 202, 95, 198, 145, 90, 32, 145, 140]"
  by (simp add: schedule1_def aes_block_eval)

lemma block1_J0:
  "encryptBlock schedule1
     [0, 1, 2, 3, 4, 5, 6, 7, 8, 9, 10, 11, 0, 0, 0, 1] =
     [89, 105, 235, 15, 175, 183, 136, 210, 101, 187, 184, 151, 71, 241, 145, 236]"
  by (simp add: schedule1_def aes_block_eval)

lemma block1_J1:
  "encryptBlock schedule1
     [0, 1, 2, 3, 4, 5, 6, 7, 8, 9, 10, 11, 0, 0, 0, 2] =
     [164, 170, 147, 248, 170, 69, 103, 34, 214, 96, 179, 229, 87, 237, 195, 71]"
  by (simp add: schedule1_def aes_block_eval)




lemma block16_J0:
  "encryptBlock schedule16
     [0, 1, 2, 3, 4, 5, 6, 7, 8, 9, 10, 11, 0, 0, 0, 1] =
     [129, 68, 177, 71, 66, 209, 2, 120, 193, 14, 155, 109, 249, 75, 15, 143]"
  by (simp add: schedule16_def aes_block_eval)

text \<open>The four products of the two authentication tags.\<close>

lemma mul1_first:
  "gcmMul 107262713073476613451066030773190645841
     115691458978675358349007490347803120012 =
     133971099103711617225298940219115768755"
  by (simp add: gcmMul_def gcmMulLoop_numeral gcmMulLoop_last del: gcmMulLoop.simps)

lemma mul1_second:
  "gcmMul 133971099103711617225298940219115768627
     115691458978675358349007490347803120012 =
     278467186298979057825454568929601720478"
  by (simp add: gcmMul_def gcmMulLoop_numeral gcmMulLoop_last del: gcmMulLoop.simps)



text \<open>An inverse of the first hash key, the squares of both, and an inverse of their sum.\<close>

lemma mul1_inverse:
  "gcmMul 115691458978675358349007490347803120012
     240140728587190758656903659900505790057 =
     170141183460469231731687303715884105728"
  by (simp add: gcmMul_def gcmMulLoop_numeral gcmMulLoop_last del: gcmMulLoop.simps)

lemma mul1_square:
  "gcmMul 115691458978675358349007490347803120012
     115691458978675358349007490347803120012 =
     184789536624123434824297084300269413715"
  by (simp add: gcmMul_def gcmMulLoop_numeral gcmMulLoop_last del: gcmMulLoop.simps)

lemma mul2_square:
  "gcmMul 76159506982837609574661072799371038720
     76159506982837609574661072799371038720 =
     280577582981406437994467561302565757450"
  by (simp add: gcmMul_def gcmMulLoop_numeral gcmMulLoop_last del: gcmMulLoop.simps)

lemma mul_delta:
  "gcmMul 147760795574523996508565263538331348534
     117057360325059463519422047454929471321 =
     170141183460469231731687303715884105728"
  by (simp add: gcmMul_def gcmMulLoop_numeral gcmMulLoop_last del: gcmMulLoop.simps)

section \<open>The field of the authentication tag\<close>

text \<open>
  The product \<open>gcmMul\<close> is linear in both arguments, \<open>gcmOne\<close> is a unit on the right
  and the product is associative. So an element with an inverse can be cancelled.
\<close>

lemma loop_step: "gcmMulLoop (Suc n) x z v =
   gcmMulLoop n x (if bit x n then z XOR v else z) (gcmDouble v)"
  by (simp add: gcmDouble_def)

lemma drop_bit_xor_word: "drop_bit n (a XOR b) = drop_bit n a XOR drop_bit n (b :: 128 word)"
  by (rule bit_word_eqI) (simp add: bit_simps)

lemma gcmDouble_xor: "gcmDouble (a XOR b) = gcmDouble a XOR gcmDouble b"
  by (simp add: gcmDouble_def drop_bit_xor_word bit_xor_iff xor.assoc xor.commute xor.left_commute)

lemma gcmDouble_zero: "gcmDouble 0 = 0"
  by (simp add: gcmDouble_def)

lemma loop_acc: "gcmMulLoop n x z v = z XOR gcmMulLoop n x 0 v"
proof (induction n arbitrary: z v)
  case 0
  then show ?case by simp
next
  case (Suc n)
  show ?case
    using Suc.IH [of "z XOR v" "gcmDouble v"] Suc.IH [of z "gcmDouble v"] Suc.IH [of v "gcmDouble v"]
    by (simp add: loop_step xor.assoc del: gcmMulLoop.simps)
qed

lemma loop_xor_right:
  "gcmMulLoop n x 0 (a XOR b) = gcmMulLoop n x 0 a XOR gcmMulLoop n x 0 b"
proof (induction n arbitrary: a b)
  case 0
  then show ?case by simp
next
  case (Suc n)
  have "gcmMulLoop (Suc n) x 0 (a XOR b) =
      (if bit x n then a XOR b else 0) XOR gcmMulLoop n x 0 (gcmDouble a XOR gcmDouble b)"
    using loop_acc [of n x "if bit x n then 0 XOR (a XOR b) else 0" "gcmDouble (a XOR b)"]
    by (simp add: loop_step gcmDouble_xor del: gcmMulLoop.simps)
  moreover have "gcmMulLoop (Suc n) x 0 a = (if bit x n then a else 0) XOR gcmMulLoop n x 0 (gcmDouble a)"
    using loop_acc [of n x "if bit x n then 0 XOR a else 0" "gcmDouble a"]
    by (simp add: loop_step del: gcmMulLoop.simps)
  moreover have "gcmMulLoop (Suc n) x 0 b = (if bit x n then b else 0) XOR gcmMulLoop n x 0 (gcmDouble b)"
    using loop_acc [of n x "if bit x n then 0 XOR b else 0" "gcmDouble b"]
    by (simp add: loop_step del: gcmMulLoop.simps)
  ultimately show ?case
    by (simp add: Suc.IH xor.assoc xor.left_commute)
qed

lemma loop_xor_left:
  "gcmMulLoop n (x XOR y) 0 v = gcmMulLoop n x 0 v XOR gcmMulLoop n y 0 v"
proof (induction n arbitrary: v)
  case 0
  then show ?case by simp
next
  case (Suc n)
  have e: "\<And>u. gcmMulLoop (Suc n) u 0 v = (if bit u n then v else 0) XOR gcmMulLoop n u 0 (gcmDouble v)"
  proof -
    fix u
    show "gcmMulLoop (Suc n) u 0 v = (if bit u n then v else 0) XOR gcmMulLoop n u 0 (gcmDouble v)"
      using loop_acc [of n u "if bit u n then 0 XOR v else 0" "gcmDouble v"]
      by (simp add: loop_step del: gcmMulLoop.simps)
  qed
  show ?case
    by (simp add: e Suc.IH bit_xor_iff xor.assoc xor.left_commute del: gcmMulLoop.simps)
qed

lemma loop_gcmDouble: "gcmMulLoop n x 0 (gcmDouble v) = gcmDouble (gcmMulLoop n x 0 v)"
proof (induction n arbitrary: v)
  case 0
  then show ?case by (simp add: gcmDouble_zero)
next
  case (Suc n)
  have e: "\<And>u. gcmMulLoop (Suc n) x 0 u = (if bit x n then u else 0) XOR gcmMulLoop n x 0 (gcmDouble u)"
  proof -
    fix u
    show "gcmMulLoop (Suc n) x 0 u = (if bit x n then u else 0) XOR gcmMulLoop n x 0 (gcmDouble u)"
      using loop_acc [of n x "if bit x n then 0 XOR u else 0" "gcmDouble u"]
      by (simp add: loop_step del: gcmMulLoop.simps)
  qed
  show ?case
    by (simp add: e Suc.IH gcmDouble_xor gcmDouble_zero del: gcmMulLoop.simps)
qed

lemma gcmMul_xor_left: "gcmMul (x XOR y) h = gcmMul x h XOR gcmMul y h"
  by (simp add: gcmMul_def loop_xor_left)

lemma gcmMul_xor_right: "gcmMul x (a XOR b) = gcmMul x a XOR gcmMul x b"
  by (simp add: gcmMul_def loop_xor_right)

lemma gcmMul_gcmDouble_right: "gcmMul x (gcmDouble v) = gcmDouble (gcmMul x v)"
  by (simp add: gcmMul_def loop_gcmDouble)


lemma loop_unfold:
  "gcmMulLoop (Suc n) x 0 v = (if bit x n then v else 0) XOR gcmMulLoop n x 0 (gcmDouble v)"
  using loop_acc [of n x "if bit x n then 0 XOR v else 0" "gcmDouble v"]
  by (simp add: loop_step del: gcmMulLoop.simps)

lemma drop_bit_power2: "Suc k < 128 \<Longrightarrow> drop_bit 1 (2 ^ Suc k :: 128 word) = 2 ^ k"
  by (rule bit_word_eqI) (auto simp add: bit_drop_bit_eq bit_exp_iff simp del: power_Suc)

lemma gcmDouble_power2: "Suc k < 128 \<Longrightarrow> gcmDouble (2 ^ Suc k) = 2 ^ k"
  using drop_bit_power2 [of k] by (simp add: gcmDouble_def bit_exp_iff del: power_Suc)

lemma take_bit_Suc_xor:
  "take_bit (Suc n) (x :: 128 word) = (if bit x n then 2 ^ n else 0) XOR take_bit n x"
  by (rule bit_word_eqI) (auto simp add: bit_take_bit_iff bit_xor_iff bit_exp_iff less_Suc_eq)

lemma loop_one:
  "Suc n \<le> 128 \<Longrightarrow> gcmMulLoop (Suc n) x 0 (2 ^ n) = take_bit (Suc n) x"
proof (induction n)
  case 0
  show ?case by (simp add: take_bit_Suc_xor)
next
  case (Suc n)
  then have "gcmMulLoop (Suc n) x 0 (2 ^ n) = take_bit (Suc n) x" by simp
  moreover have "gcmDouble (2 ^ Suc n) = 2 ^ n"
    using Suc.prems by (simp add: gcmDouble_power2 del: power_Suc)
  ultimately show ?case
    by (simp add: loop_unfold [of "Suc n"] take_bit_Suc_xor [of "Suc n"]
        del: gcmMulLoop.simps power_Suc)
qed

lemma gcmOne_power: "gcmOne = 2 ^ 127"
  by (simp add: gcmOne_def)

lemma gcmMul_one: "gcmMul x gcmOne = x"
proof -
  have "gcmMulLoop (Suc 127) x 0 (2 ^ 127) = take_bit (Suc 127) x"
    by (rule loop_one) simp
  then have "gcmMulLoop 128 x 0 (2 ^ 127) = x"
    by (simp add: take_bit_word_eq_self del: gcmMulLoop.simps)
  then show ?thesis by (simp only: gcmMul_def gcmOne_power)
qed

lemma loop_peel:
  "gcmMulLoop (Suc n) x 0 v =
     gcmMulLoop n (drop_bit 1 x) 0 v XOR (if bit x 0 then (gcmDouble ^^ n) v else 0)"
proof (induction n arbitrary: v)
  case 0
  show ?case by simp
next
  case (Suc n)
  have "gcmMulLoop (Suc (Suc n)) x 0 v =
      (if bit x (Suc n) then v else 0) XOR gcmMulLoop (Suc n) x 0 (gcmDouble v)"
    by (rule loop_unfold)
  also have "\<dots> = (if bit x (Suc n) then v else 0) XOR
      (gcmMulLoop n (drop_bit 1 x) 0 (gcmDouble v) XOR
       (if bit x 0 then (gcmDouble ^^ n) (gcmDouble v) else 0))"
    by (simp only: Suc.IH)
  also have "\<dots> = gcmMulLoop (Suc n) (drop_bit 1 x) 0 v XOR
      (if bit x 0 then (gcmDouble ^^ Suc n) v else 0)"
    by (simp add: loop_unfold bit_drop_bit_eq funpow_swap1 xor.assoc
        del: gcmMulLoop.simps)
  finally show ?case .
qed

lemma gcmMul_funpow_right: "gcmMul x ((gcmDouble ^^ k) v) = (gcmDouble ^^ k) (gcmMul x v)"
  by (induction k) (simp_all add: gcmMul_gcmDouble_right)

lemma funpow_gcmDouble_xor: "(gcmDouble ^^ k) (a XOR b) = (gcmDouble ^^ k) a XOR (gcmDouble ^^ k) b"
  by (induction k) (simp_all add: gcmDouble_xor)

lemma funpow_gcmDouble_one:
  "k \<le> 127 \<Longrightarrow> (gcmDouble ^^ k) gcmOne = 2 ^ (127 - k)"
proof (induction k)
  case 0
  show ?case by (simp add: gcmOne_power)
next
  case (Suc k)
  then have e: "127 - k = Suc (126 - k)" and l: "Suc (126 - k) < 128" by simp_all
  have "(gcmDouble ^^ Suc k) gcmOne = gcmDouble (2 ^ Suc (126 - k))"
    using Suc by (simp add: e del: power_Suc)
  also have "\<dots> = 2 ^ (126 - k)" using l by (rule gcmDouble_power2)
  finally show ?case by simp
qed

lemma gcmR_bits: "gcmR = 2 ^ 127 XOR 2 ^ 126 XOR 2 ^ 125 XOR 2 ^ 120"
  by (simp add: gcmR_def)

lemma gcmDouble_128_one:
  "(gcmDouble ^^ 128) gcmOne =
     gcmOne XOR gcmDouble gcmOne XOR (gcmDouble ^^ 2) gcmOne XOR (gcmDouble ^^ 7) gcmOne"
proof -
  have "(gcmDouble ^^ 128) gcmOne = gcmDouble ((gcmDouble ^^ 127) gcmOne)"
    by (simp add: numeral_eq_Suc)
  also have "\<dots> = gcmDouble 1" by (simp add: funpow_gcmDouble_one)
  also have "\<dots> = gcmR" by (simp add: gcmDouble_def)
  finally have l: "(gcmDouble ^^ 128) gcmOne = gcmR" .
  have "gcmDouble gcmOne = (gcmDouble ^^ 1) gcmOne" by simp
  then have r: "gcmOne XOR gcmDouble gcmOne XOR (gcmDouble ^^ 2) gcmOne XOR (gcmDouble ^^ 7) gcmOne =
      2 ^ 127 XOR 2 ^ 126 XOR 2 ^ 125 XOR 2 ^ 120"
    by (simp only: funpow_gcmDouble_one) (simp add: gcmOne_power)
  show ?thesis unfolding l r by (rule gcmR_bits)
qed

lemma gcmDouble_128:
  "(gcmDouble ^^ 128) v = v XOR gcmDouble v XOR (gcmDouble ^^ 2) v XOR (gcmDouble ^^ 7) v"
proof -
  have "(gcmDouble ^^ 128) v = (gcmDouble ^^ 128) (gcmMul v gcmOne)" by (simp add: gcmMul_one)
  also have "\<dots> = gcmMul v ((gcmDouble ^^ 128) gcmOne)" by (simp only: gcmMul_funpow_right)
  also have "\<dots> = gcmMul v gcmOne XOR gcmMul v (gcmDouble gcmOne) XOR
      gcmMul v ((gcmDouble ^^ 2) gcmOne) XOR gcmMul v ((gcmDouble ^^ 7) gcmOne)"
    by (simp only: gcmDouble_128_one gcmMul_xor_right)
  also have "\<dots> = v XOR gcmDouble v XOR (gcmDouble ^^ 2) v XOR (gcmDouble ^^ 7) v"
    by (simp only: gcmMul_funpow_right gcmMul_gcmDouble_right gcmMul_one)
  finally show ?thesis .
qed

lemma loop_single_bit:
  "k < 128 \<Longrightarrow>
   gcmMulLoop n (2 ^ k) 0 v = (if k < n then (gcmDouble ^^ (n - 1 - k)) v else 0)"
proof (induction n arbitrary: v)
  case 0
  show ?case by simp
next
  case (Suc n)
  have b: "bit (2 ^ k :: 128 word) n \<longleftrightarrow> n = k"
    using Suc.prems by (auto simp add: bit_exp_iff)
  have u: "gcmMulLoop (Suc n) (2 ^ k) 0 v =
      (if n = k then v else 0) XOR gcmMulLoop n (2 ^ k) 0 (gcmDouble v)"
    by (simp only: loop_unfold b)
  have ih: "gcmMulLoop n (2 ^ k) 0 (gcmDouble v) =
      (if k < n then (gcmDouble ^^ (n - 1 - k)) (gcmDouble v) else 0)"
    using Suc.prems by (rule Suc.IH)
  consider "k < n" | "k = n" | "n < k" by linarith
  then show ?case
  proof cases
    case 1
    then have "Suc n - 1 - k = Suc (n - 1 - k)" by simp
    then show ?thesis using 1 unfolding u ih by (simp add: funpow_swap1)
  next
    case 2
    then show ?thesis unfolding u ih by simp
  next
    case 3
    then show ?thesis unfolding u ih by simp
  qed
qed

lemma gcmMul_power2: "k < 128 \<Longrightarrow> gcmMul (2 ^ k) y = (gcmDouble ^^ (127 - k)) y"
  by (simp add: gcmMul_def loop_single_bit)

lemma gcmMul_R: "gcmMul gcmR y = (gcmDouble ^^ 128) y"
proof -
  have "gcmMul gcmR y =
      gcmMul (2 ^ 127) y XOR gcmMul (2 ^ 126) y XOR gcmMul (2 ^ 125) y XOR gcmMul (2 ^ 120) y"
    by (simp only: gcmR_bits gcmMul_xor_left)
  moreover have "gcmMul (2 ^ 127) y = y" using gcmMul_power2 [of 127 y] by simp
  moreover have "gcmMul (2 ^ 126) y = gcmDouble y" using gcmMul_power2 [of 126 y] by simp
  moreover have "gcmMul (2 ^ 125) y = (gcmDouble ^^ 2) y" using gcmMul_power2 [of 125 y] by simp
  moreover have "gcmMul (2 ^ 120) y = (gcmDouble ^^ 7) y" using gcmMul_power2 [of 120 y] by simp
  ultimately show ?thesis by (simp only: gcmDouble_128)
qed

lemma gcmMul_gcmDouble_left: "gcmMul (gcmDouble x) y = gcmDouble (gcmMul x y)"
proof -
  have "gcmDouble (gcmMul x y) = gcmMul x (gcmDouble y)" by (simp only: gcmMul_gcmDouble_right)
  also have "\<dots> = gcmMulLoop (Suc 128) x 0 y"
  proof -
    have "\<not> bit x 128" by (simp add: bit_word_iff_drop_bit_and)
    then show ?thesis by (simp only: loop_unfold [of 128] gcmMul_def if_False xor.left_neutral)
  qed
  also have "\<dots> = gcmMul (drop_bit 1 x) y XOR (if bit x 0 then (gcmDouble ^^ 128) y else 0)"
    by (simp only: loop_peel gcmMul_def)
  also have "\<dots> = gcmMul (drop_bit 1 x) y XOR gcmMul (if bit x 0 then gcmR else 0) y"
    by (simp only: gcmMul_R gcmMul_zero if_distrib [of "\<lambda>a. gcmMul a y"])
  also have "\<dots> = gcmMul (gcmDouble x) y"
    by (simp add: gcmDouble_def gcmMul_xor_left gcmMul_zero)
  finally show ?thesis by simp
qed

lemma gcmMul_loop_assoc:
  "gcmMul (gcmMulLoop n x a v) z = gcmMulLoop n x (gcmMul a z) (gcmMul v z)"
proof (induction n arbitrary: a v)
  case 0
  show ?case by simp
next
  case (Suc n)
  show ?case
    by (simp add: Suc.IH gcmMul_xor_left gcmMul_gcmDouble_left flip: gcmDouble_def)
qed

lemma gcmMul_assoc: "gcmMul (gcmMul x y) z = gcmMul x (gcmMul y z)"
  by (simp add: gcmMul_def [of x] gcmMul_loop_assoc gcmMul_zero)

lemma gcmMul_cancel:
  assumes "gcmMul h h' = gcmOne" and "gcmMul x h = gcmMul y h"
  shows "x = y"
proof -
  have "x = gcmMul (gcmMul x h) h'" by (simp add: gcmMul_assoc assms(1) gcmMul_one)
  also have "\<dots> = gcmMul (gcmMul y h) h'" by (simp only: assms(2))
  also have "\<dots> = y" by (simp add: gcmMul_assoc assms(1) gcmMul_one)
  finally show ?thesis .
qed

section \<open>Big-endian conversion is a bijection\<close>

lemma be_uint_snoc: "be_uint (xs @ [b]) = push_bit 8 (be_uint xs) OR ucast b"
  by (simp add: be_uint_def)

lemma be_bytes_Suc: "be_bytes (Suc n) w = be_bytes n (drop_bit 8 w) @ [ucast w]"
proof -
  have "map (\<lambda>i. ucast (drop_bit (8 * (Suc n - 1 - i)) w) :: byte) [0..<n] =
      map (\<lambda>i. ucast (drop_bit (8 * (n - 1 - i)) (drop_bit 8 w))) [0..<n]"
  proof (rule map_cong [OF refl])
    fix i assume "i \<in> set [0..<n]"
    then have "8 * (Suc n - 1 - i) = 8 * (n - 1 - i) + 8" by simp
    then show "(ucast (drop_bit (8 * (Suc n - 1 - i)) w) :: byte) =
        ucast (drop_bit (8 * (n - 1 - i)) (drop_bit 8 w))"
      by (simp add: drop_bit_drop_bit add.commute)
  qed
  then show ?thesis by (simp add: be_bytes_def)
qed

lemma be_bytes_take_bit:
  "8 * n \<le> k \<Longrightarrow> be_bytes n (take_bit k w) = be_bytes n w"
proof -
  assume k: "8 * n \<le> k"
  have "(ucast (drop_bit (8 * (n - 1 - i)) (take_bit k w)) :: byte) =
      ucast (drop_bit (8 * (n - 1 - i)) w)" if "i < n" for i
  proof (rule bit_word_eqI)
    fix j assume "j < LENGTH(8)"
    then have "8 * (n - 1 - i) + j < k" using k that by simp
    then show "bit (ucast (drop_bit (8 * (n - 1 - i)) (take_bit k w)) :: byte) j \<longleftrightarrow>
        bit (ucast (drop_bit (8 * (n - 1 - i)) w) :: byte) j"
      by (simp add: bit_ucast_iff bit_drop_bit_eq bit_take_bit_iff)
  qed
  then show ?thesis by (simp add: be_bytes_def)
qed

lemma be_bytes_be_uint:
  "length bs = n \<Longrightarrow> 8 * n \<le> LENGTH('a) \<Longrightarrow> be_bytes n (be_uint bs :: 'a::len word) = bs"
proof (induction bs arbitrary: n rule: rev_induct)
  case Nil
  then show ?case by (simp add: be_bytes_def)
next
  case (snoc b bs)
  then obtain m where n: "n = Suc m" and m: "length bs = m" and l: "8 * m + 8 \<le> LENGTH('a)"
    by (cases n) auto
  let ?u = "be_uint bs :: 'a word"
  have last: "(ucast (push_bit 8 ?u OR ucast b) :: byte) = b"
  proof (rule bit_word_eqI)
    fix j assume "j < LENGTH(8)"
    then have "j < LENGTH('a)" "j < 8" using l by simp_all
    then show "bit (ucast (push_bit 8 ?u OR ucast b) :: byte) j \<longleftrightarrow> bit b j"
      by (simp add: bit_ucast_iff bit_or_iff bit_push_bit_iff)
  qed
  have "drop_bit 8 (push_bit 8 ?u OR (ucast b :: 'a word)) = take_bit (LENGTH('a) - 8) ?u"
    by (rule bit_word_eqI)
      (auto simp add: bit_drop_bit_eq bit_or_iff bit_push_bit_iff bit_ucast_iff bit_take_bit_iff
        dest: bit_imp_le_length)
  moreover have "be_bytes m (take_bit (LENGTH('a) - 8) ?u) = be_bytes m ?u"
    using l by (intro be_bytes_take_bit) simp
  moreover have "be_bytes m ?u = bs" using m l by (intro snoc.IH) simp_all
  ultimately show ?case by (simp add: n be_bytes_Suc be_uint_snoc last)
qed

lemma be_uint_be_bytes:
  "be_uint (be_bytes n w) = (take_bit (8 * n) w :: 'a::len word)"
proof (induction n arbitrary: w)
  case 0
  show ?case by (simp add: be_bytes_def be_uint_def)
next
  case (Suc n)
  have "push_bit 8 (take_bit (8 * n) (drop_bit 8 w)) OR ucast (ucast w :: byte) =
      take_bit (8 * Suc n) w"
    by (rule bit_word_eqI)
      (auto simp add: bit_or_iff bit_push_bit_iff bit_take_bit_iff bit_drop_bit_eq bit_ucast_iff)
  then show ?case by (simp add: be_bytes_Suc be_uint_snoc Suc.IH)
qed

lemma be_uint_be_bytes16: "be_uint (be_bytes 16 w) = (w :: 128 word)"
  by (simp add: be_uint_be_bytes take_bit_word_eq_self)

lemma be_bytes16_inject: "be_bytes 16 (x :: 128 word) = be_bytes 16 y \<longleftrightarrow> x = y"
  by (metis be_uint_be_bytes16)

lemma be_uint16_inject:
  assumes "length xs = 16" "length ys = 16" "(be_uint xs :: 128 word) = be_uint ys"
  shows "xs = ys"
proof -
  have "be_bytes 16 (be_uint xs :: 128 word) = xs" using assms(1) by (rule be_bytes_be_uint) simp
  moreover have "be_bytes 16 (be_uint ys :: 128 word) = ys"
    using assms(2) by (rule be_bytes_be_uint) simp
  ultimately show ?thesis using assms(3) by metis
qed

lemma xor_right_inject: "a XOR c = b XOR c \<longleftrightarrow> a = (b :: 128 word)"
proof
  assume "a XOR c = b XOR c"
  then have "(a XOR c) XOR c = (b XOR c) XOR c" by (rule arg_cong)
  then show "a = b" by (simp add: xor.assoc)
qed simp

lemma xor_left_inject: "c XOR a = c XOR b \<longleftrightarrow> a = (b :: 128 word)"
  using xor_right_inject [of a c b] by (simp add: xor.commute)

lemma length_padBlock: "length b \<le> 16 \<Longrightarrow> length (padBlock b) = 16"
  by (simp add: padBlock_def gcmBlockSize_def)

lemma gcmUpdate_step:
  "xs \<noteq> [] \<Longrightarrow>
   gcmUpdate h y xs = gcmUpdate h (gcmMul (y XOR be_uint (padBlock (take 16 xs))) h) (drop 16 xs)"
  by (cases xs) simp_all

lemma gcmUpdate_acc_inject:
  assumes inv: "gcmMul h h' = gcmOne"
  shows "y \<noteq> y' \<Longrightarrow> gcmUpdate h y xs \<noteq> gcmUpdate h y' xs"
proof (induction "length xs" arbitrary: xs y y' rule: less_induct)
  case less
  show ?case
  proof (cases "xs = []")
    case True
    then show ?thesis using less.prems by simp
  next
    case False
    let ?B = "be_uint (padBlock (take 16 xs)) :: 128 word"
    have "y XOR ?B \<noteq> y' XOR ?B" using less.prems by (simp only: xor_right_inject) simp
    then have "gcmMul (y XOR ?B) h \<noteq> gcmMul (y' XOR ?B) h"
      using gcmMul_cancel [OF inv] by blast
    moreover have "length (drop 16 xs) < length xs" using False by simp
    ultimately have "gcmUpdate h (gcmMul (y XOR ?B) h) (drop 16 xs) \<noteq>
        gcmUpdate h (gcmMul (y' XOR ?B) h) (drop 16 xs)"
      using less.hyps by blast
    then show ?thesis unfolding gcmUpdate_step [OF False] .
  qed
qed

lemma padBlock_inject:
  "length a = length b \<Longrightarrow> padBlock a = padBlock b \<longleftrightarrow> a = b"
  by (simp add: padBlock_def)

lemma gcmUpdate_byte:
  assumes inv: "gcmMul h h' = gcmOne"
  shows "i < length xs \<Longrightarrow> b \<noteq> xs ! i \<Longrightarrow> gcmUpdate h y (xs[i := b]) \<noteq> gcmUpdate h y xs"
proof (induction "length xs" arbitrary: xs i y rule: less_induct)
  case less
  from less.prems have ne: "xs \<noteq> []" and ne': "xs[i := b] \<noteq> []" by auto
  let ?B = "be_uint (padBlock (take 16 xs)) :: 128 word"
  show ?case
  proof (cases "i < 16")
    case True
    have tk: "take 16 (xs[i := b]) = (take 16 xs)[i := b]" by (simp only: take_update_swap)
    have dr: "drop 16 (xs[i := b]) = drop 16 xs" using True by simp
    have "(take 16 xs)[i := b] ! i \<noteq> take 16 xs ! i"
      using True less.prems by simp
    then have "(take 16 xs)[i := b] \<noteq> take 16 xs" by metis
    then have "padBlock (take 16 (xs[i := b])) \<noteq> padBlock (take 16 xs)"
      by (simp add: tk padBlock_inject)
    moreover have "length (padBlock (take 16 (xs[i := b]))) = 16"
      "length (padBlock (take 16 xs)) = 16"
      by (simp_all add: length_padBlock)
    ultimately have "(be_uint (padBlock (take 16 (xs[i := b]))) :: 128 word) \<noteq> ?B"
      using be_uint16_inject by blast
    then have "gcmMul (y XOR be_uint (padBlock (take 16 (xs[i := b])))) h \<noteq>
        gcmMul (y XOR ?B) h"
      using gcmMul_cancel [OF inv] xor_left_inject by blast
    then have "gcmUpdate h (gcmMul (y XOR be_uint (padBlock (take 16 (xs[i := b])))) h)
          (drop 16 xs) \<noteq>
        gcmUpdate h (gcmMul (y XOR ?B) h) (drop 16 xs)"
      by (rule gcmUpdate_acc_inject [OF inv])
    then show ?thesis
      unfolding gcmUpdate_step [OF ne] gcmUpdate_step [OF ne'] dr .
  next
    case False
    have tk: "take 16 (xs[i := b]) = take 16 xs" using False by simp
    have dr: "drop 16 (xs[i := b]) = (drop 16 xs)[i - 16 := b]"
      using False by (simp add: drop_update_swap)
    have "length (drop 16 xs) < length xs" using ne by simp
    moreover have "i - 16 < length (drop 16 xs)" using less.prems False by simp
    moreover have "b \<noteq> drop 16 xs ! (i - 16)" using less.prems False by simp
    ultimately have "gcmUpdate h (gcmMul (y XOR ?B) h) ((drop 16 xs)[i - 16 := b]) \<noteq>
        gcmUpdate h (gcmMul (y XOR ?B) h) (drop 16 xs)"
      using less.hyps by blast
    then show ?thesis
      unfolding gcmUpdate_step [OF ne] gcmUpdate_step [OF ne'] dr tk .
  qed
qed

section \<open>Sealing and opening the example envelopes\<close>

lemma rand_world0: "rand_Read 12 (setSeed_Do world0) = (nonce0, world1)"
  by (simp add: rand_Read_def setSeed_Do_def rand_Seed_def world0_def world1_def nonce0_def upt_rec)

lemma cipher_key1: "Encrypt_block (cipher (aes_gcm key1)) = encryptBlock schedule1"
  by (simp add: aes_gcm_def expandKey_key1)


lemma cipher_key16: "Encrypt_block (cipher (aes_gcm key16)) = encryptBlock schedule16"
  by (simp add: aes_gcm_def expandKey_key16)

lemma zero_block: "replicate gcmBlockSize (0 :: byte) = [0, 0, 0, 0, 0, 0, 0, 0, 0, 0, 0, 0, 0, 0, 0, 0]"
  by (simp add: gcmBlockSize_def numeral_eq_Suc)

lemma hashKey_key1: "hashKey (aes_gcm key1) = 115691458978675358349007490347803120012"
  by (simp add: hashKey_def cipher_key1 zero_block block1_zero be_uint_def)


lemma counter_blocks:
  "nonce0 @ [0, 0, 0, 1] = [0, 1, 2, 3, 4, 5, 6, 7, 8, 9, 10, 11, 0, 0, 0, 1]"
  "gcmInc32 [0, 1, 2, 3, 4, 5, 6, 7, 8, 9, 10, 11, 0, 0, 0, 1] =
     [0, 1, 2, 3, 4, 5, 6, 7, 8, 9, 10, 11, 0, 0, 0, 2]"
  by (simp_all add: nonce0_def gcmInc32_def be_uint_def be_bytes_def upt_rec)

lemma gcmAuth_one_block:
  "length c = 16 \<Longrightarrow>
   gcmAuth g c [] m =
     xorBytes (be_bytes 16 (gcmMul (gcmMul (be_uint c) (hashKey g) XOR 128) (hashKey g))) m"
proof -
  assume l: "length c = 16"
  then obtain b bs where c: "c = b # bs" and lb: "length bs = 15" by (cases c) auto
  have pad: "padBlock (take 16 (b # bs)) = b # bs"
    using lb by (simp add: padBlock_def gcmBlockSize_def)
  have up: "gcmUpdate (hashKey g) 0 c = gcmMul (be_uint c) (hashKey g)"
    using lb pad unfolding c by (simp del: take_Suc_Cons)
  show ?thesis
    using l by (simp add: gcmAuth_def Let_def up bitLen_def)
qed


lemma gcmAuth_empty: "gcmAuth g [] [] m = xorBytes (be_bytes 16 (0 :: 128 word)) m"
  by (simp add: gcmAuth_def Let_def bitLen_def gcmMul_zero)

lemma auth_key1:
  "gcmAuth (aes_gcm key1) [80, 178, 12, 14, 231, 218, 8, 238, 200, 220, 116, 127, 42, 145, 216, 81] []
     [89, 105, 235, 15, 175, 183, 136, 210, 101, 187, 184, 151, 71, 241, 145, 236] =
     [136, 23, 63, 69, 40, 100, 26, 71, 226, 4, 168, 21, 251, 74, 129, 114]"
  by (simp add: gcmAuth_one_block hashKey_key1 be_uint_def mul1_first mul1_second
      be_bytes_def upt_rec xorBytes_def)


lemma stream_key1:
  "counterCrypt (aes_gcm key1) [0, 1, 2, 3, 4, 5, 6, 7, 8, 9, 10, 11, 0, 0, 0, 2] plain1 =
     [80, 178, 12, 14, 231, 218, 8, 238, 200, 220, 116, 127, 42, 145, 216, 81]"
  by (simp add: plain1_def cipher_key1 block1_J1 xorBytes_def)


lemma Seal_key1: "gcm_Seal (aes_gcm key1) nonce0 nonce0 plain1 [] = Returns envelope12"
proof -
  have "length nonce0 = 12" "length plain1 \<le> 68719476704"
    by (simp_all add: nonce0_def plain1_def)
  then have "gcm_Seal (aes_gcm key1) nonce0 nonce0 plain1 [] =
      Returns (nonce0 @ counterCrypt (aes_gcm key1) (gcmInc32 (nonce0 @ [0, 0, 0, 1])) plain1 @
        gcmAuth (aes_gcm key1)
          (counterCrypt (aes_gcm key1) (gcmInc32 (nonce0 @ [0, 0, 0, 1])) plain1) []
          (Encrypt_block (cipher (aes_gcm key1)) (nonce0 @ [0, 0, 0, 1])))"
    by (rule gcm_Seal_aes)
  then show ?thesis
    by (simp add: counter_blocks stream_key1 cipher_key1 block1_J0 auth_key1
        del: counterCrypt.simps)
      (simp add: nonce0_def envelope12_def)
qed

lemma Encrypt_key1: "Encrypt plain1 key1 world0 = Returns ((envelope12, None), world1)"
proof -
  have "length key1 = 32" by (simp add: key1_def)
  then show ?thesis by (simp add: Encrypt_valid_key rand_world0 Seal_key1)
qed



lemma Seal_key16: "gcm_Seal (aes_gcm key16) nonce0 nonce0 [] [] = Returns envelope16"
proof -
  have "length nonce0 = 12" by (simp add: nonce0_def)
  then have "gcm_Seal (aes_gcm key16) nonce0 nonce0 [] [] =
      Returns (nonce0 @ gcmAuth (aes_gcm key16) [] []
        (Encrypt_block (cipher (aes_gcm key16)) (nonce0 @ [0, 0, 0, 1])))"
    by (simp add: gcm_Seal_aes)
  then show ?thesis
    by (simp add: counter_blocks cipher_key16 block16_J0 gcmAuth_empty be_bytes_def upt_rec
        xorBytes_def)
      (simp add: nonce0_def envelope16_def)
qed

lemma Encrypt_key16: "Encrypt [] key16 world0 = Returns ((envelope16, None), world1)"
proof -
  have "length key16 = 16" by (simp add: key16_def)
  then show ?thesis by (simp add: Encrypt_valid_key rand_world0 Seal_key16)
qed

section \<open>The claims\<close>

text \<open>
  Claim C1, as stated: for every key of an accepted length and every plaintext,
  \<^verbatim>\<open>Decrypt(Encrypt(p, k), k)\<close> returns \<open>p\<close>. It fails on a plaintext of more than
  \<open>(2^32 - 2) * 16 = 68719476704\<close> bytes: \<^verbatim>\<open>Seal\<close> panics and \<^verbatim>\<open>Encrypt\<close> returns
  nothing.
\<close>

theorem Encrypt_oversize_panics:
  "length key1 = 32 \<and>
   Encrypt (replicate 68719476705 0) key1 world0 =
     Panics ''crypto/cipher: message too large for GCM''"
proof -
  have k: "length key1 = 32" by (simp add: key1_def)
  have n: "length nonce0 = 12" by (simp add: nonce0_def)
  have "gcm_Seal (aes_gcm key1) nonce0 nonce0 (replicate 68719476705 0) [] =
      Panics ''crypto/cipher: message too large for GCM''"
    using n by (simp add: gcm_Seal_def aes_gcm_sizes)
  then show ?thesis using k by (simp add: Encrypt_valid_key rand_world0)
qed

text \<open>
  Claim C1, amended: for every key of 16, 24 or 32 bytes and every plaintext of at most
  68719476704 bytes, the empty one included, \<^verbatim>\<open>Encrypt\<close> returns an envelope without
  error, and \<^verbatim>\<open>Decrypt\<close> of that envelope under the same key returns exactly the
  plaintext, without error.
\<close>

theorem Decrypt_Encrypt:
  "length key = 16 \<or> length key = 24 \<or> length key = 32 \<Longrightarrow> length p \<le> 68719476704 \<Longrightarrow>
   \<exists>enc w'. Encrypt p key w = Returns ((enc, None), w') \<and> Decrypt enc key = Returns (p, None)"
  by (rule Encrypt_then_Decrypt)

theorem Decrypt_Encrypt_witness:
  "(\<exists>enc w'. Encrypt plain1 key1 world0 = Returns ((enc, None), w') \<and>
      Decrypt enc key1 = Returns (plain1, None)) \<and>
   (\<exists>enc w'. Encrypt [] key16 world0 = Returns ((enc, None), w') \<and>
      Decrypt enc key16 = Returns ([], None))"
proof -
  have "length key1 = 16 \<or> length key1 = 24 \<or> length key1 = 32" "length plain1 \<le> 68719476704"
    by (simp_all add: key1_def plain1_def)
  moreover have "length key16 = 16 \<or> length key16 = 24 \<or> length key16 = 32"
    "length ([] :: bytes) \<le> 68719476704"
    by (simp_all add: key16_def)
  ultimately show ?thesis
    using Decrypt_Encrypt [of key1 plain1 world0] Decrypt_Encrypt [of key16 "[]" world0]
    by blast
qed




text \<open>
  Claim C3, as stated: the key-size error is returned exactly when the key is not 32
  bytes long. It fails for a key of 16 bytes: \<^verbatim>\<open>Encrypt\<close> returns an envelope without
  error, and \<^verbatim>\<open>Decrypt\<close> opens it without error.
\<close>

theorem key16_accepted:
  "length key16 \<noteq> 32 \<and>
   Encrypt [] key16 world0 = Returns ((envelope16, None), world1) \<and>
   Decrypt envelope16 key16 = Returns ([], None)"
proof -
  have k: "length key16 = 16" by (simp add: key16_def)
  then obtain enc w' where "Encrypt [] key16 world0 = Returns ((enc, None), w')"
    and "Decrypt enc key16 = Returns ([], None)"
    using Encrypt_then_Decrypt [of key16 "[]" world0] by auto
  then have "Decrypt envelope16 key16 = Returns ([], None)"
    by (simp add: Encrypt_key16)
  then show ?thesis using k by (simp add: Encrypt_key16)
qed

text \<open>
  Claim C3, amended: \<^verbatim>\<open>Encrypt\<close>, and likewise \<^verbatim>\<open>Decrypt\<close>, returns a key-size error
  exactly when the key length is none of 16, 24 and 32; in particular every key of 32
  bytes passes the check.
\<close>

theorem key_size_error_iff:
  "(\<exists>k. Encrypt src key w = Returns (([], Some (KeySizeError k)), w)) =
     (length key \<noteq> 16 \<and> length key \<noteq> 24 \<and> length key \<noteq> 32) \<and>
   (\<exists>k. Decrypt ct key = Returns ([], Some (KeySizeError k))) =
     (length key \<noteq> 16 \<and> length key \<noteq> 24 \<and> length key \<noteq> 32)"
proof (cases "length key = 16 \<or> length key = 24 \<or> length key = 32")
  case True
  then have "\<And>k. Encrypt src key w \<noteq> Returns (([], Some (KeySizeError k)), w)"
    by (rule Encrypt_valid_no_key_error)
  moreover have "\<And>k. Decrypt ct key \<noteq> Returns ([], Some (KeySizeError k))"
    using True by (rule Decrypt_valid_no_key_error)
  ultimately show ?thesis using True by auto
next
  case False
  then show ?thesis by (simp add: Encrypt_invalid_key Decrypt_invalid_key)
qed

text \<open>
  Claim C4: for every key of valid length and every input shorter than the nonce size of
  12 bytes, the empty input included, \<^verbatim>\<open>Decrypt\<close> returns \<^verbatim>\<open>(nil, ErrNoNonce)\<close>.
\<close>

theorem Decrypt_short_envelope:
  "length key = 16 \<or> length key = 24 \<or> length key = 32 \<Longrightarrow> length b < 12 \<Longrightarrow>
   Decrypt b key = Returns ([], Some ErrNoNonce)"
  by (simp add: Decrypt_valid_key)

theorem Decrypt_short_envelope_witness:
  "Decrypt [] (replicate 32 0) = Returns ([], Some ErrNoNonce) \<and>
   Decrypt [1, 2, 3] (replicate 16 7) = Returns ([], Some ErrNoNonce)"
  using Decrypt_short_envelope [of "replicate 32 0" "[]"]
    Decrypt_short_envelope [of "replicate 16 7" "[1, 2, 3]"]
  by simp

text \<open>
  Claim C5: every envelope that \<^verbatim>\<open>Encrypt\<close> returns starts with the 12 bytes that
  \<^verbatim>\<open>RandBytes\<close> has just generated, and the rest is what \<^verbatim>\<open>Seal\<close> computes from this
  nonce and the plaintext with no associated data. \<^verbatim>\<open>Decrypt\<close> splits its input at
  offset 12 into the nonce and the body that it hands to \<^verbatim>\<open>Open\<close>.
\<close>

theorem envelope_layout:
  "(Encrypt src key w = Returns ((enc, None), w') \<longrightarrow>
      (\<exists>nonce. RandBytes 12 w = Returns (nonce, w') \<and> length nonce = 12 \<and>
         take 12 enc = nonce \<and>
         gcm_Seal (aes_gcm key) [] nonce src [] = Returns (drop 12 enc))) \<and>
   ((length key = 16 \<or> length key = 24 \<or> length key = 32) \<and> 12 \<le> length ct \<longrightarrow>
      Decrypt ct key =
        (case gcm_Open (aes_gcm key) [] (take 12 ct) (drop 12 ct) [] of
           Panics msg \<Rightarrow> Panics msg
         | Returns (Inl err) \<Rightarrow> Returns ([], Some err)
         | Returns (Inr clt) \<Rightarrow> Returns (clt, None)))"
proof (intro conjI impI)
  assume "Encrypt src key w = Returns ((enc, None), w')"
  then obtain nonce body where "RandBytes 12 w = Returns (nonce, w')" "length nonce = 12"
    "gcm_Seal (aes_gcm key) [] nonce src [] = Returns body" "enc = nonce @ body"
    using Encrypt_Returns_layout by blast
  then show "\<exists>nonce. RandBytes 12 w = Returns (nonce, w') \<and> length nonce = 12 \<and>
         take 12 enc = nonce \<and> gcm_Seal (aes_gcm key) [] nonce src [] = Returns (drop 12 enc)"
    by auto
next
  assume "(length key = 16 \<or> length key = 24 \<or> length key = 32) \<and> 12 \<le> length ct"
  then show "Decrypt ct key =
        (case gcm_Open (aes_gcm key) [] (take 12 ct) (drop 12 ct) [] of
           Panics msg \<Rightarrow> Panics msg
         | Returns (Inl err) \<Rightarrow> Returns ([], Some err)
         | Returns (Inr clt) \<Rightarrow> Returns (clt, None))"
    by (simp add: Decrypt_valid_key)
qed

theorem envelope_layout_witness:
  "(\<exists>nonce. RandBytes 12 world0 = Returns (nonce, world1) \<and> length nonce = 12 \<and>
      take 12 envelope12 = nonce \<and>
      gcm_Seal (aes_gcm key1) [] nonce plain1 [] = Returns (drop 12 envelope12)) \<and>
   Decrypt envelope12 key2 =
     (case gcm_Open (aes_gcm key2) [] (take 12 envelope12) (drop 12 envelope12) [] of
        Panics msg \<Rightarrow> Panics msg
      | Returns (Inl err) \<Rightarrow> Returns ([], Some err)
      | Returns (Inr clt) \<Rightarrow> Returns (clt, None))"
proof -
  have "length key2 = 16 \<or> length key2 = 24 \<or> length key2 = 32" "12 \<le> length envelope12"
    by (simp_all add: key2_def envelope12_def)
  then show ?thesis
    using envelope_layout [where src = plain1 and key = key1 and w = world0
        and enc = envelope12 and w' = world1]
      envelope_layout [where key = key2 and ct = envelope12] Encrypt_key1
    by blast
qed

text \<open>
  Claim C6: for every passphrase and salt, \<^verbatim>\<open>Pbkdf2\<close> is \<^verbatim>\<open>pbkdf2.Key\<close> with 4096
  iterations, a key length of 32 and SHA-256, the three being constants of the function
  body. The result is the first block of PBKDF2 over HMAC-SHA-256 as RFC 8018 defines it,
  the XOR of \<open>U\<^sub>1\<close> to \<open>U\<^sub>4\<^sub>0\<^sub>9\<^sub>6\<close>, and it is exactly 32 bytes long.
\<close>

theorem Pbkdf2_parameters:
  "Pbkdf2 pw salt w =
     (case pbkdf2_Key pw salt 4096 32 sha256_New of
        Panics msg \<Rightarrow> Panics msg
      | Returns key \<Rightarrow> Returns (key, w)) \<and>
   pbkdf2_Key pw salt 4096 32 sha256_New = Returns (rfc_T1 pw salt 4096) \<and>
   Pbkdf2 pw salt w = Returns (rfc_T1 pw salt 4096, w) \<and>
   length (rfc_T1 pw salt 4096) = 32"
  by (simp add: Pbkdf2_def Let_def pbkdf2_Key_sha256_one_block length_rfc_T1)

text \<open>
  Claim C7: \<^verbatim>\<open>Pbkdf2\<close> cannot fail, is deterministic and has no side effect. For every
  passphrase and salt there is one key of 32 bytes such that a call in any state of the
  process returns (none of the panics of \<^verbatim>\<open>pbkdf2.Key\<close> is reached), returns this key,
  whatever the state (the seed, the clock, what the generator has handed out), and
  leaves the state as it was.
\<close>

theorem Pbkdf2_deterministic:
  "\<exists>key. length key = 32 \<and> (\<forall>w. Pbkdf2 pw salt w = Returns (key, w))"
proof -
  have "pbkdf2_Key pw salt 4096 32 sha256_New = Returns (rfc_T1 pw salt 4096)"
    by (rule pbkdf2_Key_sha256_one_block) simp
  then have "\<forall>w. Pbkdf2 pw salt w = Returns (rfc_T1 pw salt 4096, w)"
    by (simp add: Pbkdf2_def Let_def)
  moreover have "length (rfc_T1 pw salt 4096) = 32" by (rule length_rfc_T1)
  ultimately show ?thesis by blast
qed

text \<open>
  Claim C8, as stated: \<^verbatim>\<open>RandBytes(n)\<close> returns \<open>n\<close> bytes for every non-negative
  \<open>n\<close>. It fails for \<open>n = 2\<^sup>4\<^sup>8 + 1\<close>, which is a non-negative \<^verbatim>\<open>int\<close>:
  \<^verbatim>\<open>make\<close> panics and nothing is returned.
\<close>

theorem RandBytes_oversize_panics:
  "0 \<le> sint (281474976710657 :: 64 word) \<and>
   RandBytes 281474976710657 world0 = Panics ''runtime error: makeslice: len out of range''"
  by (simp add: RandBytes_def maxAlloc_def Let_def)

text \<open>
  Claim C8, amended: for every \<^verbatim>\<open>int\<close> \<open>n\<close> from 0 to \<open>2\<^sup>4\<^sup>8\<close>, the largest
  length that \<^verbatim>\<open>make\<close> accepts, \<^verbatim>\<open>RandBytes(n)\<close> returns, and what it returns has
  length exactly \<open>n\<close>.
\<close>

theorem RandBytes_length:
  "0 \<le> sint n \<Longrightarrow> sint n \<le> 2 ^ 48 \<Longrightarrow>
   \<exists>b w'. RandBytes n w = Returns (b, w') \<and> int (length b) = sint n"
  by (simp add: RandBytes_in_range rand_Read_def)

theorem RandBytes_length_witness:
  "\<exists>b w'. RandBytes 12 world0 = Returns (b, w') \<and> int (length b) = sint (12 :: 64 word)"
  using RandBytes_length [of 12 world0] by simp

text \<open>
  Claim C9: the key-size check is that of \<^verbatim>\<open>aes.NewCipher\<close>. With a key of 16, 24 or
  32 bytes neither \<^verbatim>\<open>Encrypt\<close> nor \<^verbatim>\<open>Decrypt\<close> returns a key-size error; with a key
  of any other length both return \<^verbatim>\<open>KeySizeError\<close> of that length.
\<close>

theorem aes_key_sizes:
  "(length key = 16 \<or> length key = 24 \<or> length key = 32 \<longrightarrow>
      (\<forall>k enc w'. Encrypt src key w \<noteq> Returns ((enc, Some (KeySizeError k)), w')) \<and>
      (\<forall>k clt. Decrypt ct key \<noteq> Returns (clt, Some (KeySizeError k)))) \<and>
   (\<not> (length key = 16 \<or> length key = 24 \<or> length key = 32) \<longrightarrow>
      Encrypt src key w = Returns (([], Some (KeySizeError (int (length key)))), w) \<and>
      Decrypt ct key = Returns ([], Some (KeySizeError (int (length key)))))"
proof (cases "length key = 16 \<or> length key = 24 \<or> length key = 32")
  case True
  then have "\<And>k enc w'. Encrypt src key w \<noteq> Returns ((enc, Some (KeySizeError k)), w')"
    by (rule Encrypt_valid_no_key_error)
  moreover have "\<And>k clt. Decrypt ct key \<noteq> Returns (clt, Some (KeySizeError k))"
    using True by (rule Decrypt_valid_no_key_error)
  ultimately show ?thesis using True by blast
next
  case False
  then show ?thesis by (simp add: Encrypt_invalid_key Decrypt_invalid_key)
qed

theorem aes_key_sizes_witness:
  "(\<forall>k enc w'. Encrypt [] key16 world0 \<noteq> Returns ((enc, Some (KeySizeError k)), w')) \<and>
   (\<forall>k clt. Decrypt envelope16 key16 \<noteq> Returns (clt, Some (KeySizeError k))) \<and>
   (\<forall>k enc w'. Encrypt [] (replicate 24 7) world0 \<noteq> Returns ((enc, Some (KeySizeError k)), w')) \<and>
   Encrypt [] (replicate 31 7) world0 = Returns (([], Some (KeySizeError 31)), world0) \<and>
   Decrypt envelope16 [] = Returns ([], Some (KeySizeError 0))"
proof -
  have "length key16 = 16 \<or> length key16 = 24 \<or> length key16 = 32"
    by (simp add: key16_def)
  then show ?thesis
    using aes_key_sizes [of key16 "[]" world0 envelope16]
      aes_key_sizes [of "replicate 24 7" "[]" world0 envelope16]
      aes_key_sizes [of "replicate 31 7" "[]" world0 envelope16]
      aes_key_sizes [of "[]" "[]" world0 envelope16]
    by simp
qed

text \<open>
  Claim C10: \<^verbatim>\<open>Decrypt\<close> checks the key before the envelope. With a key of invalid
  length and an envelope shorter than the nonce, the result is the key-size error and
  not \<^verbatim>\<open>ErrNoNonce\<close>.
\<close>

theorem Decrypt_key_check_first:
  "\<not> (length key = 16 \<or> length key = 24 \<or> length key = 32) \<Longrightarrow> length ct < 12 \<Longrightarrow>
   Decrypt ct key = Returns ([], Some (KeySizeError (int (length key)))) \<and>
   Decrypt ct key \<noteq> Returns ([], Some ErrNoNonce)"
  by (simp add: Decrypt_invalid_key)

theorem Decrypt_key_check_first_witness:
  "Decrypt [] [] = Returns ([], Some (KeySizeError 0)) \<and>
   Decrypt [] [] \<noteq> Returns ([], Some ErrNoNonce)"
  using Decrypt_key_check_first [of "[]" "[]"] by simp

end
